theory Spec2Isabelle
  imports Main
begin

section \<open>goreplace: rewriting the replace directives of a go.mod file\<close>

text \<open>
  The program (\<^verbatim>\<open>main.go\<close>) removes every line of a manifest that starts with
  \<^verbatim>\<open>replace\<close>, scans the remaining lines for the find-strings of a rule list read
  from a YAML file, checks that the replace paths of the matched rules are directories
  and appends one \<^verbatim>\<open>replace find => path\<close> line per match.

  Go strings are byte sequences; they are modelled as \<^typ>\<open>string\<close>, a list of 8-bit
  characters. The file system is a map from paths to nodes, every Go function that
  returns an \<^verbatim>\<open>error\<close> returns a sum here, and the faults of the operating system that
  the file system alone does not determine (a failing write, close or rename) are an
  explicit argument, so that each \<^verbatim>\<open>return err\<close> of the source is a branch.
\<close>

subsection \<open>Data\<close>

text \<open>\<^verbatim>\<open>type FindReplace struct { Find string; Replace string }\<close>\<close>

record FindReplace =
  Find :: string
  Replace :: string

abbreviation LF :: char where "LF \<equiv> CHR 0x0A"
abbreviation CR :: char where "CR \<equiv> CHR 0x0D"

text \<open>The error numbers of the system calls; only \<open>ENOENT\<close> is told apart by the code.\<close>

datatype errno = ENOENT | EISDIR | Errno string

fun errnoText :: "errno \<Rightarrow> string" where
  "errnoText ENOENT = ''no such file or directory''"
| "errnoText EISDIR = ''is a directory''"
| "errnoText (Errno s) = s"

text \<open>
  The errors the program can meet: \<^verbatim>\<open>*fs.PathError\<close> (operation, path, errno),
  \<^verbatim>\<open>bufio.ErrTooLong\<close>, an error of the YAML decoder and the error that
  \<^verbatim>\<open>fmt.Errorf\<close> builds from a message.
\<close>

datatype error =
    PathError string string errno
  | ErrTooLong
  | YamlError string
  | Errorf string

text \<open>\<^verbatim>\<open>err.Error()\<close>: a path error prints as \<^verbatim>\<open>op path: errno\<close>.\<close>

fun Error :: "error \<Rightarrow> string" where
  "Error (PathError opn path e) = opn @ '' '' @ path @ '': '' @ errnoText e"
| "Error ErrTooLong = ''bufio.Scanner: token too long''"
| "Error (YamlError s) = s"
| "Error (Errorf s) = s"

text \<open>\<^verbatim>\<open>os.IsNotExist\<close>: true of a path error whose errno is \<open>ENOENT\<close>.\<close>

fun IsNotExist :: "error \<Rightarrow> bool" where
  "IsNotExist (PathError opn path e) = (e = ENOENT)"
| "IsNotExist _ = False"

subsection \<open>The file system\<close>

text \<open>
  A path names a regular file with its bytes, a directory, or something that every
  system call on it refuses with an errno (a path below a directory that cannot be
  searched, for instance). A path with no node does not exist.
\<close>

datatype node = File string | Dir | Inaccessible errno

type_synonym fs = "string \<Rightarrow> node option"

text \<open>
  The faults that are not a function of the path: what a read of an open file, the
  creation of the temporary file, a write to it, the close of the file that was read, the
  close of the temporary file and the final rename fail with, if they do.
\<close>

record faults =
  readErr :: "error option"
  createTempErr :: "error option"
  writeErr :: "error option"
  closeOriginalErr :: "error option"
  closeErr :: "error option"
  renameErr :: "error option"

definition noFaults :: faults where
  "noFaults = \<lparr>readErr = None, createTempErr = None, writeErr = None,
               closeOriginalErr = None, closeErr = None, renameErr = None\<rparr>"

text \<open>
  \<^verbatim>\<open>os.Open\<close> succeeds on a file and on a directory and returns a handle, here the
  node itself; reading the handle of a directory fails with \<open>EISDIR\<close>.
\<close>

definition os_Open :: "fs \<Rightarrow> string \<Rightarrow> error + node" where
  "os_Open fsys path =
     (case fsys path of
        None \<Rightarrow> Inl (PathError ''open'' path ENOENT)
      | Some (Inaccessible e) \<Rightarrow> Inl (PathError ''open'' path e)
      | Some n \<Rightarrow> Inr n)"

text \<open>All the bytes of an open file, as \<^verbatim>\<open>io.ReadAll\<close> or the scanner's reads get them.\<close>

definition readAll :: "faults \<Rightarrow> string \<Rightarrow> node \<Rightarrow> error + string" where
  "readAll io path n =
     (case n of
        File c \<Rightarrow> (case readErr io of Some e \<Rightarrow> Inl e | None \<Rightarrow> Inr c)
      | _ \<Rightarrow> Inl (PathError ''read'' path EISDIR))"

text \<open>\<^verbatim>\<open>os.ReadFile\<close>: open, then read everything.\<close>

definition os_ReadFile :: "faults \<Rightarrow> fs \<Rightarrow> string \<Rightarrow> error + string" where
  "os_ReadFile io fsys path =
     (case os_Open fsys path of
        Inl err \<Rightarrow> Inl err
      | Inr file \<Rightarrow> readAll io path file)"

text \<open>\<^verbatim>\<open>os.Stat\<close> followed by \<^verbatim>\<open>info.IsDir()\<close>: the result is whether the node is a directory.\<close>

definition os_Stat :: "fs \<Rightarrow> string \<Rightarrow> error + bool" where
  "os_Stat fsys path =
     (case fsys path of
        None \<Rightarrow> Inl (PathError ''stat'' path ENOENT)
      | Some (Inaccessible e) \<Rightarrow> Inl (PathError ''stat'' path e)
      | Some Dir \<Rightarrow> Inr True
      | Some (File c) \<Rightarrow> Inr False)"

text \<open>
  The temporary file is created empty, written to, closed and renamed over the target
  or removed by the deferred \<^verbatim>\<open>os.Remove\<close>; it is never left behind, so it is a local
  buffer of bytes and not a node of the file system.
\<close>

definition os_CreateTemp :: "faults \<Rightarrow> error + string" where
  "os_CreateTemp io = (case createTempErr io of Some e \<Rightarrow> Inl e | None \<Rightarrow> Inr [])"

definition WriteString :: "faults \<Rightarrow> string \<Rightarrow> string \<Rightarrow> error + string" where
  "WriteString io tempFile s =
     (case writeErr io of Some e \<Rightarrow> Inl e | None \<Rightarrow> Inr (tempFile @ s))"

definition os_Rename :: "faults \<Rightarrow> fs \<Rightarrow> string \<Rightarrow> string \<Rightarrow> error + fs" where
  "os_Rename io fsys tempFile path =
     (case renameErr io of
        Some e \<Rightarrow> Inl e
      | None \<Rightarrow> Inr (fsys(path \<mapsto> File tempFile)))"

text \<open>The bytes of the regular file at a path (empty when there is none).\<close>

definition content :: "fs \<Rightarrow> string \<Rightarrow> string" where
  "content fsys path = (case fsys path of Some (File c) \<Rightarrow> c | _ \<Rightarrow> [])"

subsection \<open>Library functions of package strings\<close>

text \<open>\<^verbatim>\<open>strings.HasPrefix(s, prefix)\<close>\<close>

definition HasPrefix :: "string \<Rightarrow> string \<Rightarrow> bool" where
  "HasPrefix s pre = (length s \<ge> length pre \<and> take (length pre) s = pre)"

text \<open>\<^verbatim>\<open>strings.Contains(s, substr)\<close>: some suffix of \<open>s\<close> starts with \<open>substr\<close>.\<close>

fun Contains :: "string \<Rightarrow> string \<Rightarrow> bool" where
  "Contains [] substr = (substr = [])"
| "Contains (c # s) substr = (HasPrefix (c # s) substr \<or> Contains s substr)"

text \<open>\<^verbatim>\<open>strings.Join(elems, sep)\<close>\<close>

fun Join :: "string list \<Rightarrow> string \<Rightarrow> string" where
  "Join [] sep = []"
| "Join [a] sep = a"
| "Join (a # b # elems) sep = a @ sep @ Join (b # elems) sep"

subsection \<open>bufio.Scanner with the default split function ScanLines\<close>

text \<open>\<^verbatim>\<open>dropCR\<close> drops one trailing carriage return.\<close>

definition dropCR :: "string \<Rightarrow> string" where
  "dropCR data = (if data \<noteq> [] \<and> last data = CR then butlast data else data)"

text \<open>
  \<^verbatim>\<open>bufio.MaxScanTokenSize\<close>, the largest buffer of a scanner: a line whose bytes before
  the newline (or before the end of the input) do not fit stops the scan with
  \<^verbatim>\<open>ErrTooLong\<close>.
\<close>

definition maxTokenSize :: nat where
  "maxTokenSize = 65536"

text \<open>
  The tokens that the loop \<^verbatim>\<open>for scanner.Scan() { scanner.Text() }\<close> sees on the given
  bytes, and what \<^verbatim>\<open>scanner.Err()\<close> returns after it. \<^verbatim>\<open>ScanLines\<close> returns no token
  on empty data at the end of the input, the bytes before the first newline otherwise
  (all the data when there is none), with one trailing carriage return dropped.
\<close>

function scan :: "string \<Rightarrow> string list \<times> error option" where
  "scan data =
     (if data = [] then ([], None)
      else let line = takeWhile (\<lambda>c. c \<noteq> LF) data;
               rest = drop 1 (dropWhile (\<lambda>c. c \<noteq> LF) data)
           in if length line \<ge> maxTokenSize then ([], Some ErrTooLong)
              else (case scan rest of (toks, err) \<Rightarrow> (dropCR line # toks, err)))"
  by pat_completeness auto
termination
proof (relation "measure length")
  show "wf (measure length)" by simp
next
  fix data :: string and line rest
  assume ne: "data \<noteq> []"
    and r: "rest = drop 1 (dropWhile (\<lambda>c. c \<noteq> LF) data)"
  have "length (dropWhile (\<lambda>c. c \<noteq> LF) data) \<le> length data"
    by (rule length_dropWhile_le)
  moreover have "length data > 0" using ne by simp
  ultimately have "length rest < length data"
    using r by (cases "dropWhile (\<lambda>c. c \<noteq> LF) data") auto
  then show "(rest, data) \<in> measure length" by simp
qed

declare scan.simps [simp del]

text \<open>
  A scanner over an open file: a failing read ends the scan with the read's error
  (the tokens seen before it are discarded by both callers, which return the error).
\<close>

definition Scanner :: "faults \<Rightarrow> string \<Rightarrow> node \<Rightarrow> string list \<times> error option" where
  "Scanner io path file =
     (case readAll io path file of
        Inl err \<Rightarrow> ([], Some err)
      | Inr data \<Rightarrow> scan data)"

text \<open>The lines of a manifest, as the program reads them.\<close>

definition Lines :: "string \<Rightarrow> string list" where
  "Lines data = fst (scan data)"

subsection \<open>findMatchesInFile\<close>

text \<open>The inner loop \<^verbatim>\<open>for _, cmd := range find\<close> on one line.\<close>

fun matchLine :: "string \<Rightarrow> FindReplace list \<Rightarrow> FindReplace list \<Rightarrow> FindReplace list" where
  "matchLine line [] found = found"
| "matchLine line (cmd # finds) found =
     (if Contains line (Find cmd) then matchLine line finds (found @ [cmd])
      else matchLine line finds found)"

text \<open>The outer loop \<^verbatim>\<open>for scanner.Scan()\<close>.\<close>

fun matchLines :: "string list \<Rightarrow> FindReplace list \<Rightarrow> FindReplace list \<Rightarrow> FindReplace list" where
  "matchLines [] finds found = found"
| "matchLines (line # rest) finds found = matchLines rest finds (matchLine line finds found)"

definition findMatchesInFile ::
  "faults \<Rightarrow> fs \<Rightarrow> string \<Rightarrow> FindReplace list \<Rightarrow> error + FindReplace list" where
  "findMatchesInFile io fsys filePath finds =
     (case os_Open fsys filePath of
        Inl err \<Rightarrow> Inl err
      | Inr file \<Rightarrow>
          (case Scanner io filePath file of
             (toks, scanErr) \<Rightarrow>
               (let found = matchLines toks finds []
                in case scanErr of
                     Some err \<Rightarrow> Inl err
                   | None \<Rightarrow> Inr found)))"

subsection \<open>validateLocalReposExist and dirExists\<close>

text \<open>
  \<^verbatim>\<open>dirExists\<close> returns a pair in the source, and here: a missing path is
  \<open>(False, nil)\<close>, any other error of \<^verbatim>\<open>os.Stat\<close> is returned, and otherwise the
  answer is \<^verbatim>\<open>info.IsDir()\<close>.
\<close>

definition dirExists :: "fs \<Rightarrow> string \<Rightarrow> bool \<times> error option" where
  "dirExists fsys path =
     (case os_Stat fsys path of
        Inl err \<Rightarrow> (if IsNotExist err then (False, None) else (False, Some err))
      | Inr isDir \<Rightarrow> (isDir, None))"

text \<open>The loop that collects \<^verbatim>\<open>missing\<close>.\<close>

fun collectMissing :: "fs \<Rightarrow> FindReplace list \<Rightarrow> string list \<Rightarrow> string list" where
  "collectMissing fsys [] missing = missing"
| "collectMissing fsys (cmd # replace) missing =
     (case dirExists fsys (Replace cmd) of
        (exists, Some err) \<Rightarrow> collectMissing fsys replace (missing @ [Error err])
      | (exists, None) \<Rightarrow>
          (if \<not> exists then collectMissing fsys replace (missing @ [Replace cmd])
           else collectMissing fsys replace missing))"

text \<open>The result is the returned error, \<open>None\<close> for \<^verbatim>\<open>nil\<close>.\<close>

definition validateLocalReposExist :: "fs \<Rightarrow> FindReplace list \<Rightarrow> error option" where
  "validateLocalReposExist fsys replace =
     (let missing = collectMissing fsys replace []
      in if length missing \<noteq> 0
         then (let combinedMissingStr = Join missing [LF]
               in Some (Errorf (''replace module error(s) or missing:'' @ [LF] @ combinedMissingStr)))
         else None)"

subsection \<open>appendModReplace\<close>

text \<open>\<^verbatim>\<open>fmt.Sprintf("replace %s => %s\n", cmd.Find, cmd.Replace)\<close>\<close>

definition directive :: "FindReplace \<Rightarrow> string" where
  "directive cmd = ''replace '' @ Find cmd @ '' => '' @ Replace cmd @ [LF]"

text \<open>The loop that appends the new lines to the temporary file; it stops at a failing write.\<close>

fun appendLoop :: "faults \<Rightarrow> FindReplace list \<Rightarrow> string \<Rightarrow> error + string" where
  "appendLoop io [] tempFile = Inr tempFile"
| "appendLoop io (cmd # replace) tempFile =
     (case WriteString io tempFile (directive cmd) of
        Inl err \<Rightarrow> Inl err
      | Inr tempFile' \<Rightarrow> appendLoop io replace tempFile')"

definition appendModReplace :: "faults \<Rightarrow> fs \<Rightarrow> string \<Rightarrow> FindReplace list \<Rightarrow> error + fs" where
  "appendModReplace io fsys goModPath replace =
     (case os_ReadFile io fsys goModPath of
        Inl err \<Rightarrow> Inl err
      | Inr originalContent \<Rightarrow>
          (case os_CreateTemp io of
             Inl err \<Rightarrow> Inl err
           | Inr tempFile \<Rightarrow>
               (case WriteString io tempFile originalContent of
                  Inl err \<Rightarrow> Inl err
                | Inr tempFile1 \<Rightarrow>
                    (case appendLoop io replace tempFile1 of
                       Inl err \<Rightarrow> Inl err
                     | Inr tempFile2 \<Rightarrow>
                         (case closeErr io of
                            Some err \<Rightarrow> Inl err
                          | None \<Rightarrow> os_Rename io fsys tempFile2 goModPath)))))"

subsection \<open>deleteLinesWithReplace\<close>

text \<open>
  The loop over the scanned lines: a line that does not start with \<^verbatim>\<open>replace\<close> is
  written with a newline after it; a failing write returns at once.
\<close>

fun copyLines :: "faults \<Rightarrow> string list \<Rightarrow> string \<Rightarrow> error + string" where
  "copyLines io [] tempFile = Inr tempFile"
| "copyLines io (line # rest) tempFile =
     (if \<not> HasPrefix line ''replace''
      then (case WriteString io tempFile (line @ [LF]) of
              Inl err \<Rightarrow> Inl err
            | Inr tempFile' \<Rightarrow> copyLines io rest tempFile')
      else copyLines io rest tempFile)"

text \<open>
  The deferred \<^verbatim>\<open>Close\<close> and \<^verbatim>\<open>os.Remove\<close> calls discard their results; the
  explicit \<^verbatim>\<open>originalFile.Close()\<close> and \<^verbatim>\<open>tempFile.Close()\<close> return theirs
  before the rename.
\<close>

definition deleteLinesWithReplace :: "faults \<Rightarrow> fs \<Rightarrow> string \<Rightarrow> error + fs" where
  "deleteLinesWithReplace io fsys filePath =
     (case os_Open fsys filePath of
        Inl err \<Rightarrow> Inl err
      | Inr originalFile \<Rightarrow>
          (case os_CreateTemp io of
             Inl err \<Rightarrow> Inl err
           | Inr tempFile \<Rightarrow>
               (case Scanner io filePath originalFile of
                  (toks, scanErr) \<Rightarrow>
                    (case copyLines io toks tempFile of
                       Inl err \<Rightarrow> Inl err
                     | Inr tempFile' \<Rightarrow>
                         (case scanErr of
                            Some err \<Rightarrow> Inl err
                          | None \<Rightarrow>
                              (case closeOriginalErr io of
                                 Some err \<Rightarrow> Inl err
                               | None \<Rightarrow>
                                   (case closeErr io of
                                      Some err \<Rightarrow> Inl err
                                    | None \<Rightarrow> os_Rename io fsys tempFile' filePath)))))))"

subsection \<open>readYamlConfig\<close>

text \<open>
  \<^verbatim>\<open>yaml.Unmarshal\<close> into a \<^verbatim>\<open>[]FindReplace\<close> belongs to package
  \<^verbatim>\<open>gopkg.in/yaml.v3\<close>; the decoder is a parameter.
\<close>

type_synonym decoder = "string \<Rightarrow> error + FindReplace list"

definition readYamlConfig :: "decoder \<Rightarrow> faults \<Rightarrow> fs \<Rightarrow> string \<Rightarrow> error + FindReplace list" where
  "readYamlConfig unmarshal io fsys filePath =
     (case os_Open fsys filePath of
        Inl err \<Rightarrow> Inl err
      | Inr file \<Rightarrow>
          (case readAll io filePath file of
             Inl err \<Rightarrow> Inl err
           | Inr byteValue \<Rightarrow>
               (case unmarshal byteValue of
                  Inl err \<Rightarrow> Inl err
                | Inr findReplaces \<Rightarrow> Inr findReplaces)))"

subsection \<open>main\<close>

text \<open>The command-line flags \<^verbatim>\<open>-gomod\<close>, \<^verbatim>\<open>-config\<close> and \<^verbatim>\<open>-clean\<close>.\<close>

record flags =
  goModPath :: string
  goModConfigPath :: string
  clean :: bool

text \<open>The default values of the flags.\<close>

definition defaultFlags :: flags where
  "defaultFlags = \<lparr>goModPath = ''go.mod.test'', goModConfigPath = ''replace.yaml'', clean = False\<rparr>"

text \<open>
  The functions \<^verbatim>\<open>main\<close> calls, and how the process ends: \<^verbatim>\<open>main\<close> returns (exit
  status 0), or \<^verbatim>\<open>log.Fatal(err)\<close> prints the error and exits with status 1.
\<close>

datatype call =
    Call_deleteLinesWithReplace
  | Call_readYamlConfig
  | Call_findMatchesInFile
  | Call_validateLocalReposExist
  | Call_appendModReplace

datatype ending = Return | Fatal error

fun exitStatus :: "ending \<Rightarrow> nat" where
  "exitStatus Return = 0"
| "exitStatus (Fatal err) = 1"

text \<open>A run: the calls made, in order, the ending, and the file system left behind.\<close>

record run =
  calls :: "call list"
  ending :: ending
  final :: fs

definition main :: "decoder \<Rightarrow> faults \<Rightarrow> flags \<Rightarrow> fs \<Rightarrow> run" where
  "main unmarshal io fl fsys =
     (case deleteLinesWithReplace io fsys (goModPath fl) of
        Inl err \<Rightarrow>
          \<lparr>calls = [Call_deleteLinesWithReplace], ending = Fatal err, final = fsys\<rparr>
      | Inr fs1 \<Rightarrow>
          if clean fl
          then \<lparr>calls = [Call_deleteLinesWithReplace], ending = Return, final = fs1\<rparr>
          else
            (case readYamlConfig unmarshal io fs1 (goModConfigPath fl) of
               Inl err \<Rightarrow>
                 \<lparr>calls = [Call_deleteLinesWithReplace, Call_readYamlConfig],
                  ending = Fatal err, final = fs1\<rparr>
             | Inr finds \<Rightarrow>
                 (case findMatchesInFile io fs1 (goModPath fl) finds of
                    Inl err \<Rightarrow>
                      \<lparr>calls = [Call_deleteLinesWithReplace, Call_readYamlConfig,
                                Call_findMatchesInFile],
                       ending = Fatal err, final = fs1\<rparr>
                  | Inr replace \<Rightarrow>
                      (case validateLocalReposExist fs1 replace of
                         Some err \<Rightarrow>
                           \<lparr>calls = [Call_deleteLinesWithReplace, Call_readYamlConfig,
                                     Call_findMatchesInFile, Call_validateLocalReposExist],
                            ending = Fatal err, final = fs1\<rparr>
                       | None \<Rightarrow>
                           (case appendModReplace io fs1 (goModPath fl) replace of
                              Inl err \<Rightarrow>
                                \<lparr>calls = [Call_deleteLinesWithReplace, Call_readYamlConfig,
                                          Call_findMatchesInFile, Call_validateLocalReposExist,
                                          Call_appendModReplace],
                                 ending = Fatal err, final = fs1\<rparr>
                            | Inr fs2 \<Rightarrow>
                                \<lparr>calls = [Call_deleteLinesWithReplace, Call_readYamlConfig,
                                          Call_findMatchesInFile, Call_validateLocalReposExist,
                                          Call_appendModReplace],
                                 ending = Return, final = fs2\<rparr>)))))"

section \<open>Properties\<close>

subsection \<open>Substrings, the matcher's loops and the line scanner\<close>

lemma HasPrefix_iff: "HasPrefix s pre \<longleftrightarrow> (\<exists>suf. s = pre @ suf)"
proof
  assume "HasPrefix s pre"
  then have "s = pre @ drop (length pre) s"
    unfolding HasPrefix_def by (metis append_take_drop_id)
  then show "\<exists>suf. s = pre @ suf" ..
next
  assume "\<exists>suf. s = pre @ suf"
  then show "HasPrefix s pre" by (auto simp: HasPrefix_def)
qed

lemma HasPrefix_Nil [simp]: "HasPrefix s []"
  by (simp add: HasPrefix_def)

lemma Contains_Nil [simp]: "Contains s []"
  by (cases s) simp_all

lemma Contains_iff: "Contains s substr \<longleftrightarrow> (\<exists>pre suf. s = pre @ substr @ suf)"
proof (induction s)
  case Nil
  then show ?case by auto
next
  case (Cons c s)
  show ?case
  proof
    assume "Contains (c # s) substr"
    then consider "HasPrefix (c # s) substr" | "Contains s substr" by auto
    then show "\<exists>pre suf. c # s = pre @ substr @ suf"
    proof cases
      case 1
      then obtain suf where "c # s = substr @ suf" by (auto simp: HasPrefix_iff)
      then have "c # s = [] @ substr @ suf" by simp
      then show ?thesis by blast
    next
      case 2
      then obtain pre suf where "s = pre @ substr @ suf" using Cons.IH by auto
      then have "c # s = (c # pre) @ substr @ suf" by simp
      then show ?thesis by blast
    qed
  next
    assume "\<exists>pre suf. c # s = pre @ substr @ suf"
    then obtain pre suf where eq: "c # s = pre @ substr @ suf" by auto
    show "Contains (c # s) substr"
    proof (cases pre)
      case Nil
      then have "HasPrefix (c # s) substr" using eq by (auto simp: HasPrefix_iff)
      then show ?thesis by simp
    next
      case (Cons a pre')
      then have "s = pre' @ substr @ suf" using eq by simp
      then have "Contains s substr" using Cons.IH by blast
      then show ?thesis by simp
    qed
  qed
qed

lemma matchLine_eq:
  "matchLine line finds found = found @ filter (\<lambda>cmd. Contains line (Find cmd)) finds"
  by (induction finds arbitrary: found) simp_all

lemma matchLines_eq:
  "matchLines ls finds found =
     found @ concat (map (\<lambda>line. filter (\<lambda>cmd. Contains line (Find cmd)) finds) ls)"
  by (induction ls arbitrary: found) (simp_all add: matchLine_eq)

lemma count_list_filter:
  "count_list (filter P xs) x = (if P x then count_list xs x else 0)"
  by (induction xs) auto

lemma count_list_concat_filter:
  "count_list (concat (map (\<lambda>l. filter (P l) xs) ls)) x =
     count_list xs x * length (filter (\<lambda>l. P l x) ls)"
  by (induction ls) (simp_all add: count_list_filter)


lemma scan_Nil [simp]: "scan [] = ([], None)"
  by (simp add: scan.simps)

lemma scan_line:
  assumes "LF \<notin> set l"
  shows "scan (l @ LF # rest) =
           (if length l \<ge> maxTokenSize then ([], Some ErrTooLong)
            else (dropCR l # fst (scan rest), snd (scan rest)))"
proof -
  have all: "\<forall>c\<in>set l. c \<noteq> LF" using assms by auto
  have tw: "takeWhile (\<lambda>c. c \<noteq> LF) (l @ LF # rest) = l"
    using all by (simp add: takeWhile_append2)
  have dw: "dropWhile (\<lambda>c. c \<noteq> LF) (l @ LF # rest) = LF # rest"
    using all by (simp add: dropWhile_append2)
  show ?thesis
    by (subst scan.simps) (simp add: tw dw Let_def split: prod.split)
qed

lemma scan_last:
  assumes "LF \<notin> set l" and "l \<noteq> []"
  shows "scan l =
           (if length l \<ge> maxTokenSize then ([], Some ErrTooLong) else ([dropCR l], None))"
proof -
  have all: "\<forall>c\<in>set l. c \<noteq> LF" using assms by auto
  have tw: "takeWhile (\<lambda>c. c \<noteq> LF) l = l" using all by simp
  have dw: "dropWhile (\<lambda>c. c \<noteq> LF) l = []" using all by simp
  show ?thesis
    using assms(2) by (subst scan.simps) (simp add: tw dw Let_def)
qed

lemma set_dropCR: "set (dropCR l) \<subseteq> set l"
  by (auto simp: dropCR_def dest: in_set_butlastD)

lemma length_dropCR: "length (dropCR l) \<le> length l"
  by (simp add: dropCR_def)

lemma scan_tokens:
  "scan data = (toks, err) \<Longrightarrow> t \<in> set toks \<Longrightarrow> LF \<notin> set t \<and> length t < maxTokenSize"
proof (induction data arbitrary: toks err rule: scan.induct)
  case (1 data)
  show ?case
  proof (cases "data = []")
    case True
    with "1.prems" show ?thesis by simp
  next
    case False
    define line where "line = takeWhile (\<lambda>c. c \<noteq> LF) data"
    define rest where "rest = drop 1 (dropWhile (\<lambda>c. c \<noteq> LF) data)"
    show ?thesis
    proof (cases "length line \<ge> maxTokenSize")
      case True
      then have "scan data = ([], Some ErrTooLong)"
        using False by (subst scan.simps) (simp add: line_def Let_def)
      with "1.prems" show ?thesis by simp
    next
      case short: False
      obtain toks' err' where r: "scan rest = (toks', err')" by (cases "scan rest")
      have "scan data = (dropCR line # toks', err')"
        using False short r by (subst scan.simps) (simp add: line_def rest_def Let_def)
      with "1.prems" have toks: "toks = dropCR line # toks'" by simp
      have lf: "LF \<notin> set line"
        unfolding line_def by (auto dest: set_takeWhileD)
      from "1.prems"(2) toks consider "t = dropCR line" | "t \<in> set toks'" by auto
      then show ?thesis
      proof cases
        case 1
        then show ?thesis
          using lf short set_dropCR[of line] length_dropCR[of line] by auto
      next
        case 2
        show ?thesis
          using "1.IH"[OF False line_def rest_def _ r 2] short by simp
      qed
    qed
  qed
qed

lemma scan_written:
  assumes "\<forall>l\<in>set ls. LF \<notin> set l \<and> length l < maxTokenSize"
  shows "scan (concat (map (\<lambda>l. l @ [LF]) ls)) = (map dropCR ls, None)"
  using assms
proof (induction ls)
  case Nil
  then show ?case by simp
next
  case (Cons l ls)
  then have lf: "LF \<notin> set l" and short: "\<not> length l \<ge> maxTokenSize" by auto
  have ih: "scan (concat (map (\<lambda>l. l @ [LF]) ls)) = (map dropCR ls, None)"
    using Cons by simp
  show ?case
    using scan_line[OF lf, of "concat (map (\<lambda>l. l @ [LF]) ls)"] short ih by simp
qed


lemma findMatchesInFile_Inr_iff:
  "findMatchesInFile io fsys filePath finds = Inr found \<longleftrightarrow>
     (\<exists>data. fsys filePath = Some (File data) \<and> readErr io = None \<and> snd (scan data) = None \<and>
        found = concat (map (\<lambda>line. filter (\<lambda>cmd. Contains line (Find cmd)) finds) (Lines data)))"
  by (auto simp: findMatchesInFile_def os_Open_def Scanner_def readAll_def Lines_def
        matchLines_eq Let_def
      split: option.splits node.splits sum.splits prod.splits)

subsection \<open>The matcher\<close>

text \<open>
  Claim C1. Whenever the matcher returns a match set, the set is the concatenation, over
  the lines of the manifest in order, of the rules (in configuration order) whose
  find-string the line contains; so the entries are grouped by line, and every entry of
  the rule list occurs once for each line in which its find-string is a substring,
  zero times if there is none (a rule written \<open>k\<close> times in the configuration is
  \<open>k\<close> entries).
\<close>

theorem findMatchesInFile_match_set:
  assumes "findMatchesInFile io fsys filePath finds = Inr found"
  shows "found = concat (map (\<lambda>line. filter (\<lambda>cmd. Contains line (Find cmd)) finds)
                          (Lines (content fsys filePath)))
       \<and> (\<forall>r. count_list found r =
              count_list finds r *
              length (filter (\<lambda>line. \<exists>pre suf. line = pre @ Find r @ suf)
                        (Lines (content fsys filePath))))"
proof -
  from assms obtain data where d: "fsys filePath = Some (File data)"
    and f: "found = concat (map (\<lambda>line. filter (\<lambda>cmd. Contains line (Find cmd)) finds) (Lines data))"
    unfolding findMatchesInFile_Inr_iff by blast
  have c: "content fsys filePath = data" using d by (simp add: content_def)
  have "count_list found r =
          count_list finds r *
          length (filter (\<lambda>line. \<exists>pre suf. line = pre @ Find r @ suf) (Lines data))" for r
    unfolding f
    using count_list_concat_filter[of "\<lambda>line cmd. Contains line (Find cmd)" finds "Lines data" r]
    by (simp add: Contains_iff)
  then show ?thesis using f c by simp
qed

theorem findMatchesInFile_match_set_witness:
  "findMatchesInFile noFaults
     [''go.mod'' \<mapsto> File ''require foo/bar v1\<newline>require foo/baz v2\<newline>'']
     ''go.mod''
     [\<lparr>Find = ''foo/ba'', Replace = ''../ba''\<rparr>, \<lparr>Find = ''baz'', Replace = ''../baz''\<rparr>]
   = Inr [\<lparr>Find = ''foo/ba'', Replace = ''../ba''\<rparr>, \<lparr>Find = ''foo/ba'', Replace = ''../ba''\<rparr>,
          \<lparr>Find = ''baz'', Replace = ''../baz''\<rparr>]
   \<and> ([\<lparr>Find = ''foo/ba'', Replace = ''../ba''\<rparr>, \<lparr>Find = ''foo/ba'', Replace = ''../ba''\<rparr>,
       \<lparr>Find = ''baz'', Replace = ''../baz''\<rparr>]
      = concat (map (\<lambda>line. filter (\<lambda>cmd. Contains line (Find cmd))
                        [\<lparr>Find = ''foo/ba'', Replace = ''../ba''\<rparr>,
                         \<lparr>Find = ''baz'', Replace = ''../baz''\<rparr>])
          (Lines (content [''go.mod'' \<mapsto> File ''require foo/bar v1\<newline>require foo/baz v2\<newline>'']
                    ''go.mod'')))
      \<and> (\<forall>r. count_list [\<lparr>Find = ''foo/ba'', Replace = ''../ba''\<rparr>,
                          \<lparr>Find = ''foo/ba'', Replace = ''../ba''\<rparr>,
                          \<lparr>Find = ''baz'', Replace = ''../baz''\<rparr>] r =
             count_list [\<lparr>Find = ''foo/ba'', Replace = ''../ba''\<rparr>,
                         \<lparr>Find = ''baz'', Replace = ''../baz''\<rparr>] r *
             length (filter (\<lambda>line. \<exists>pre suf. line = pre @ Find r @ suf)
               (Lines (content [''go.mod'' \<mapsto> File ''require foo/bar v1\<newline>require foo/baz v2\<newline>'']
                    ''go.mod'')))))"
proof -
  have h: "findMatchesInFile noFaults
     [''go.mod'' \<mapsto> File ''require foo/bar v1\<newline>require foo/baz v2\<newline>'']
     ''go.mod''
     [\<lparr>Find = ''foo/ba'', Replace = ''../ba''\<rparr>, \<lparr>Find = ''baz'', Replace = ''../baz''\<rparr>]
   = Inr [\<lparr>Find = ''foo/ba'', Replace = ''../ba''\<rparr>, \<lparr>Find = ''foo/ba'', Replace = ''../ba''\<rparr>,
          \<lparr>Find = ''baz'', Replace = ''../baz''\<rparr>]"
    by (simp add: findMatchesInFile_def os_Open_def Scanner_def readAll_def noFaults_def
          scan.simps maxTokenSize_def dropCR_def HasPrefix_def Let_def)
  from h findMatchesInFile_match_set[OF h] show ?thesis by (rule conjI)
qed

subsection \<open>The directive stripper\<close>

text \<open>The definitions that evaluate a run of the stripper on concrete bytes.\<close>

lemmas run_defs = deleteLinesWithReplace_def os_Open_def os_CreateTemp_def Scanner_def
  readAll_def noFaults_def scan.simps maxTokenSize_def dropCR_def HasPrefix_def Let_def
  WriteString_def os_Rename_def content_def Lines_def

lemma copyLines_eq:
  "copyLines io toks tempFile =
     (case writeErr io of
        None \<Rightarrow> Inr (tempFile @ concat (map (\<lambda>line. line @ [LF])
                   (filter (\<lambda>line. \<not> HasPrefix line ''replace'') toks)))
      | Some e \<Rightarrow>
          if filter (\<lambda>line. \<not> HasPrefix line ''replace'') toks = [] then Inr tempFile
          else Inl e)"
  by (induction toks arbitrary: tempFile)
     (auto simp: WriteString_def split: option.splits)

lemma deleteLinesWithReplace_File:
  assumes "fsys filePath = Some (File data)"
  shows "deleteLinesWithReplace io fsys filePath =
     (case createTempErr io of
        Some err \<Rightarrow> Inl err
      | None \<Rightarrow>
          (case Scanner io filePath (File data) of
             (toks, scanErr) \<Rightarrow>
               (case copyLines io toks [] of
                  Inl err \<Rightarrow> Inl err
                | Inr tempFile' \<Rightarrow>
                    (case scanErr of
                       Some err \<Rightarrow> Inl err
                     | None \<Rightarrow>
                         (case closeOriginalErr io of
                            Some err \<Rightarrow> Inl err
                          | None \<Rightarrow>
                              (case closeErr io of
                                 Some err \<Rightarrow> Inl err
                               | None \<Rightarrow> os_Rename io fsys tempFile' filePath))))))"
  using assms
  by (simp add: deleteLinesWithReplace_def os_Open_def os_CreateTemp_def split: option.splits)

lemma deleteLinesWithReplace_not_File:
  assumes "\<forall>data. fsys filePath \<noteq> Some (File data)"
  shows "deleteLinesWithReplace io fsys filePath \<noteq> Inr fs'"
proof (cases "fsys filePath")
  case None
  then show ?thesis by (simp add: deleteLinesWithReplace_def os_Open_def)
next
  case (Some n)
  with assms show ?thesis
    by (cases n)
       (simp_all add: deleteLinesWithReplace_def os_Open_def os_CreateTemp_def Scanner_def
          readAll_def split: option.splits)
qed

lemma deleteLinesWithReplace_Inr_iff:
  "deleteLinesWithReplace io fsys filePath = Inr fs' \<longleftrightarrow>
     (\<exists>data. fsys filePath = Some (File data) \<and> readErr io = None \<and>
        createTempErr io = None \<and> snd (scan data) = None \<and>
        (writeErr io = None \<or> filter (\<lambda>line. \<not> HasPrefix line ''replace'') (Lines data) = []) \<and>
        closeOriginalErr io = None \<and> closeErr io = None \<and> renameErr io = None \<and>
        fs' = fsys(filePath \<mapsto> File (concat (map (\<lambda>line. line @ [LF])
                (filter (\<lambda>line. \<not> HasPrefix line ''replace'') (Lines data))))))"
proof (cases "\<exists>data. fsys filePath = Some (File data)")
  case False
  then show ?thesis using deleteLinesWithReplace_not_File[of fsys filePath io fs'] by auto
next
  case True
  then obtain data where d: "fsys filePath = Some (File data)" by blast
  obtain toks err where sc: "scan data = (toks, err)" by (cases "scan data")
  show ?thesis
    unfolding deleteLinesWithReplace_File[where fsys=fsys and filePath=filePath, OF d]
    using d sc
    by (auto simp: Scanner_def readAll_def os_Rename_def Lines_def copyLines_eq
          split: option.splits if_splits)
qed

lemma HasPrefix_dropCR: "HasPrefix (dropCR l) pre \<Longrightarrow> HasPrefix l pre"
proof -
  assume h: "HasPrefix (dropCR l) pre"
  show ?thesis
  proof (cases "l \<noteq> [] \<and> last l = CR")
    case True
    then have "dropCR l = butlast l" by (simp add: dropCR_def)
    with h obtain suf where "butlast l = pre @ suf" by (auto simp: HasPrefix_iff)
    then have "l = pre @ (suf @ [last l])"
      using True by (metis append_assoc append_butlast_last_id)
    then show ?thesis unfolding HasPrefix_iff by blast
  next
    case False
    then have "dropCR l = l" by (auto simp: dropCR_def)
    with h show ?thesis by simp
  qed
qed

lemma filter_map_dropCR:
  "filter (\<lambda>line. \<not> HasPrefix line pre) (map dropCR (filter (\<lambda>line. \<not> HasPrefix line pre) ls))
     = map dropCR (filter (\<lambda>line. \<not> HasPrefix line pre) ls)"
  by (induction ls) (auto dest: HasPrefix_dropCR)

lemma Lines_tokens:
  "t \<in> set (Lines data) \<Longrightarrow> LF \<notin> set t \<and> length t < maxTokenSize"
  using scan_tokens[of data "fst (scan data)" "snd (scan data)" t] by (simp add: Lines_def)

lemma scan_stripped:
  "scan (concat (map (\<lambda>line. line @ [LF]) (filter P (Lines data))))
     = (map dropCR (filter P (Lines data)), None)"
  by (rule scan_written) (auto dest: Lines_tokens)

lemma dropCR_id_iff: "dropCR l = l \<longleftrightarrow> (l = [] \<or> last l \<noteq> CR)"
proof (cases "l = []")
  case True
  then show ?thesis by (simp add: dropCR_def)
next
  case False
  then have "length (butlast l) < length l" by simp
  then have "butlast l \<noteq> l" by (metis less_irrefl)
  then show ?thesis using False by (auto simp: dropCR_def)
qed

lemma concat_dropCR_eq_iff:
  "concat (map (\<lambda>line. dropCR line @ [LF]) ls) = concat (map (\<lambda>line. line @ [LF]) ls)
     \<longleftrightarrow> (\<forall>line\<in>set ls. dropCR line = line)"
proof
  assume "\<forall>line\<in>set ls. dropCR line = line"
  then show "concat (map (\<lambda>line. dropCR line @ [LF]) ls) = concat (map (\<lambda>line. line @ [LF]) ls)"
    by (induction ls) simp_all
next
  have len: "length (concat (map (\<lambda>line. dropCR line @ [LF]) xs))
               \<le> length (concat (map (\<lambda>line. line @ [LF]) xs))" for xs
    by (induction xs) (simp_all add: length_dropCR add_le_mono)
  assume "concat (map (\<lambda>line. dropCR line @ [LF]) ls) = concat (map (\<lambda>line. line @ [LF]) ls)"
  then show "\<forall>line\<in>set ls. dropCR line = line"
  proof (induction ls)
    case Nil
    then show ?case by simp
  next
    case (Cons l ls)
    let ?a = "concat (map (\<lambda>line. dropCR line @ [LF]) ls)"
    let ?b = "concat (map (\<lambda>line. line @ [LF]) ls)"
    from Cons.prems have eq: "(dropCR l @ [LF]) @ ?a = (l @ [LF]) @ ?b" by simp
    from arg_cong[OF eq, of length]
    have "length (dropCR l) + length ?a = length l + length ?b" by simp
    with len[of ls] length_dropCR[of l] have "length (dropCR l) = length l" by linarith
    then have "length (dropCR l @ [LF]) = length (l @ [LF])" by simp
    with eq have "dropCR l @ [LF] = l @ [LF] \<and> ?a = ?b"
      using append_eq_append_conv by blast
    then show ?case using Cons.IH by simp
  qed
qed

lemma deleteLinesWithReplace_content:
  assumes "deleteLinesWithReplace io fsys filePath = Inr fs'"
  shows "content fs' filePath = concat (map (\<lambda>line. line @ [LF])
           (filter (\<lambda>line. \<not> HasPrefix line ''replace'') (Lines (content fsys filePath))))"
  using assms unfolding deleteLinesWithReplace_Inr_iff by (auto simp: content_def)

lemma deleteLinesWithReplace_Lines:
  assumes "deleteLinesWithReplace io fsys filePath = Inr fs'"
  shows "Lines (content fs' filePath) = map dropCR
           (filter (\<lambda>line. \<not> HasPrefix line ''replace'') (Lines (content fsys filePath)))"
  unfolding deleteLinesWithReplace_content[OF assms] Lines_def[of "concat _"]
  by (simp add: scan_stripped)

lemma scan_crlf:
  assumes "\<forall>l\<in>set ls. LF \<notin> set l"
    and "snd (scan (concat (map (\<lambda>l. l @ [CR, LF]) ls))) = None"
  shows "fst (scan (concat (map (\<lambda>l. l @ [CR, LF]) ls))) = ls"
  using assms
proof (induction ls)
  case Nil
  then show ?case by simp
next
  case (Cons l ls)
  let ?rest = "concat (map (\<lambda>l. l @ [CR, LF]) ls)"
  have lf: "LF \<notin> set (l @ [CR])" using Cons.prems(1) by simp
  have eq: "concat (map (\<lambda>l. l @ [CR, LF]) (l # ls)) = (l @ [CR]) @ LF # ?rest" by simp
  have dr: "dropCR (l @ [CR]) = l" by (simp add: dropCR_def)
  show ?case
  proof (cases "length (l @ [CR]) \<ge> maxTokenSize")
    case True
    then have "scan ((l @ [CR]) @ LF # ?rest) = ([], Some ErrTooLong)"
      using scan_line[OF lf, of ?rest] by simp
    with Cons.prems(2) show ?thesis unfolding eq by simp
  next
    case False
    then have s: "scan ((l @ [CR]) @ LF # ?rest) = (l # fst (scan ?rest), snd (scan ?rest))"
      using scan_line[OF lf, of ?rest] dr by simp
    with Cons.prems(2) have "snd (scan ?rest) = None" unfolding eq by simp
    then have "fst (scan ?rest) = ls" using Cons.IH Cons.prems(1) by simp
    then show ?thesis unfolding eq s by simp
  qed
qed

lemma last_concat_LF:
  "ls \<noteq> [] \<Longrightarrow> last (concat (map (\<lambda>line. line @ [LF]) ls)) = LF"
  by (induction ls) (auto simp: last_append)

text \<open>
  Claim C2, amended. After the stripper succeeds, the lines of the manifest are the
  original lines that do not start with \<^verbatim>\<open>replace\<close>, in their original order, each
  without one trailing carriage return if it still had one; they are exactly those
  original lines when none of them ends with a carriage return; and no remaining line
  starts with \<^verbatim>\<open>replace\<close>. (A line is what the scanner reads: the bytes between
  newlines, one trailing carriage return dropped.)
\<close>

theorem deleteLinesWithReplace_lines:
  assumes "deleteLinesWithReplace io fsys filePath = Inr fs'"
  shows "Lines (content fs' filePath) =
           map dropCR (filter (\<lambda>line. \<not> HasPrefix line ''replace'')
                         (Lines (content fsys filePath)))
       \<and> ((\<forall>line\<in>set (filter (\<lambda>line. \<not> HasPrefix line ''replace'')
                            (Lines (content fsys filePath))). line = [] \<or> last line \<noteq> CR) \<longrightarrow>
            Lines (content fs' filePath) =
              filter (\<lambda>line. \<not> HasPrefix line ''replace'') (Lines (content fsys filePath)))
       \<and> (\<forall>line\<in>set (Lines (content fs' filePath)). \<not> HasPrefix line ''replace'')"
proof -
  let ?kept = "filter (\<lambda>line. \<not> HasPrefix line ''replace'') (Lines (content fsys filePath))"
  have a: "Lines (content fs' filePath) = map dropCR ?kept"
    by (rule deleteLinesWithReplace_Lines[OF assms])
  have b: "Lines (content fs' filePath) = ?kept"
    if "\<forall>line\<in>set ?kept. line = [] \<or> last line \<noteq> CR"
  proof -
    from that have "\<forall>line\<in>set ?kept. dropCR line = line" by (simp only: dropCR_id_iff)
    then have "map dropCR ?kept = ?kept" by (intro map_idI) blast
    with a show ?thesis by simp
  qed
  have c: "\<not> HasPrefix line ''replace''" if "line \<in> set (Lines (content fs' filePath))" for line
  proof -
    from that a obtain l where "l \<in> set ?kept" and "line = dropCR l" by auto
    then show ?thesis using HasPrefix_dropCR[of l "''replace''"] by auto
  qed
  from a b c show ?thesis by blast
qed

theorem deleteLinesWithReplace_lines_witness:
  "deleteLinesWithReplace noFaults
     [''go.mod'' \<mapsto> File ''require a\<newline>replace a => ./b\<newline>require c''] ''go.mod''
     = Inr [''go.mod'' \<mapsto> File ''require a\<newline>require c\<newline>'']
   \<and> Lines (content [''go.mod'' \<mapsto> File ''require a\<newline>require c\<newline>''] ''go.mod'')
     = [''require a'', ''require c'']"
proof -
  have h: "deleteLinesWithReplace noFaults
     [''go.mod'' \<mapsto> File ''require a\<newline>replace a => ./b\<newline>require c''] ''go.mod''
     = Inr [''go.mod'' \<mapsto> File ''require a\<newline>require c\<newline>'']"
    by (simp add: run_defs)
  from deleteLinesWithReplace_lines[OF h]
  have "Lines (content [''go.mod'' \<mapsto> File ''require a\<newline>require c\<newline>''] ''go.mod'') =
          map dropCR (filter (\<lambda>line. \<not> HasPrefix line ''replace'')
            (Lines (content [''go.mod'' \<mapsto> File ''require a\<newline>replace a => ./b\<newline>require c'']
               ''go.mod'')))"
    by (rule conjunct1)
  also have "\<dots> = [''require a'', ''require c'']"
    by (simp add: run_defs)
  finally show ?thesis using h by simp
qed

text \<open>
  Claim C2 as stated fails on a line that ends with two carriage returns: the kept line
  \<^verbatim>\<open>require a\r\<close> is written back as \<^verbatim>\<open>require a\r\n\<close>, whose line is
  \<^verbatim>\<open>require a\<close>.
\<close>

theorem deleteLinesWithReplace_lines_counterexample:
  "deleteLinesWithReplace noFaults [''go.mod'' \<mapsto> File (''require a'' @ [CR, CR, LF])] ''go.mod''
     = Inr [''go.mod'' \<mapsto> File (''require a'' @ [CR, LF])]
   \<and> Lines (content [''go.mod'' \<mapsto> File (''require a'' @ [CR, LF])] ''go.mod'')
     \<noteq> filter (\<lambda>line. \<not> HasPrefix line ''replace'')
         (Lines (content [''go.mod'' \<mapsto> File (''require a'' @ [CR, CR, LF])] ''go.mod''))"
  by (simp add: run_defs)

text \<open>
  Claim C6, amended. After a successful run of the stripper a second run succeeds as
  well, and any second run that succeeds leaves the same content as the first exactly
  when no line kept by the first run ends with a carriage return; for such manifests the
  second run returns the file system of the first unchanged.
\<close>

theorem deleteLinesWithReplace_twice:
  assumes "deleteLinesWithReplace io fsys filePath = Inr fs1"
  shows "(\<exists>fs2. deleteLinesWithReplace io fs1 filePath = Inr fs2)
       \<and> (\<forall>io2 fs2. deleteLinesWithReplace io2 fs1 filePath = Inr fs2 \<longrightarrow>
            (content fs2 filePath = content fs1 filePath) =
            (\<forall>line\<in>set (filter (\<lambda>line. \<not> HasPrefix line ''replace'')
                            (Lines (content fsys filePath))). line = [] \<or> last line \<noteq> CR))
       \<and> ((\<forall>line\<in>set (filter (\<lambda>line. \<not> HasPrefix line ''replace'')
                            (Lines (content fsys filePath))). line = [] \<or> last line \<noteq> CR) \<longrightarrow>
            deleteLinesWithReplace io fs1 filePath = Inr fs1)"
proof -
  let ?kept = "filter (\<lambda>line. \<not> HasPrefix line ''replace'') (Lines (content fsys filePath))"
  let ?c1 = "concat (map (\<lambda>line. line @ [LF]) ?kept)"
  let ?c2 = "concat (map (\<lambda>line. dropCR line @ [LF]) ?kept)"
  from assms obtain data where d: "fsys filePath = Some (File data)"
    and io: "readErr io = None" "createTempErr io = None" "closeOriginalErr io = None"
            "closeErr io = None" "renameErr io = None"
    and w: "writeErr io = None \<or> filter (\<lambda>line. \<not> HasPrefix line ''replace'') (Lines data) = []"
    and fs1: "fs1 = fsys(filePath \<mapsto> File (concat (map (\<lambda>line. line @ [LF])
                (filter (\<lambda>line. \<not> HasPrefix line ''replace'') (Lines data)))))"
    unfolding deleteLinesWithReplace_Inr_iff by blast
  have cd: "content fsys filePath = data" using d by (simp add: content_def)
  have n1: "fs1 filePath = Some (File ?c1)" using fs1 cd by simp
  have c1: "content fs1 filePath = ?c1" using n1 by (simp add: content_def)
  have sc: "scan ?c1 = (map dropCR ?kept, None)" by (rule scan_stripped)
  have l1: "Lines ?c1 = map dropCR ?kept" using sc by (simp add: Lines_def)
  have k1: "filter (\<lambda>line. \<not> HasPrefix line ''replace'') (Lines ?c1) = map dropCR ?kept"
    unfolding l1 by (rule filter_map_dropCR)
  have cat: "concat (map (\<lambda>line. line @ [LF]) (map dropCR ?kept)) = ?c2"
    by (simp add: comp_def)
  have second: "deleteLinesWithReplace io2 fs1 filePath = Inr fs2 \<Longrightarrow>
                  fs2 = fs1(filePath \<mapsto> File ?c2)" for io2 fs2
    unfolding deleteLinesWithReplace_Inr_iff using n1 k1 cat by auto
  have same: "(?c2 = ?c1) = (\<forall>line\<in>set ?kept. line = [] \<or> last line \<noteq> CR)"
    by (simp only: concat_dropCR_eq_iff dropCR_id_iff)
  have run: "deleteLinesWithReplace io fs1 filePath = Inr (fs1(filePath \<mapsto> File ?c2))"
    unfolding deleteLinesWithReplace_Inr_iff
    using n1 io w sc k1 cat cd by auto
  have A: "\<exists>fs2. deleteLinesWithReplace io fs1 filePath = Inr fs2" using run by blast
  have B: "(content fs2 filePath = content fs1 filePath) =
             (\<forall>line\<in>set ?kept. line = [] \<or> last line \<noteq> CR)"
    if "deleteLinesWithReplace io2 fs1 filePath = Inr fs2" for io2 fs2
  proof -
    have "content fs2 filePath = ?c2" using second[OF that] by (simp add: content_def)
    then show ?thesis using c1 same by simp
  qed
  have C: "deleteLinesWithReplace io fs1 filePath = Inr fs1"
    if "\<forall>line\<in>set ?kept. line = [] \<or> last line \<noteq> CR"
  proof -
    from that same have "?c2 = ?c1" by simp
    then have "fs1(filePath \<mapsto> File ?c2) = fs1" using n1 by (simp add: fun_upd_idem)
    with run show ?thesis by simp
  qed
  from A B C show ?thesis by blast
qed

theorem deleteLinesWithReplace_twice_witness:
  "deleteLinesWithReplace noFaults
     [''go.mod'' \<mapsto> File ''require a\<newline>replace a => ./b\<newline>require c''] ''go.mod''
     = Inr [''go.mod'' \<mapsto> File ''require a\<newline>require c\<newline>'']
   \<and> deleteLinesWithReplace noFaults
     [''go.mod'' \<mapsto> File ''require a\<newline>require c\<newline>''] ''go.mod''
     = Inr [''go.mod'' \<mapsto> File ''require a\<newline>require c\<newline>'']"
proof -
  have h: "deleteLinesWithReplace noFaults
     [''go.mod'' \<mapsto> File ''require a\<newline>replace a => ./b\<newline>require c''] ''go.mod''
     = Inr [''go.mod'' \<mapsto> File ''require a\<newline>require c\<newline>'']"
    by (simp add: run_defs)
  have k: "\<forall>line\<in>set (filter (\<lambda>line. \<not> HasPrefix line ''replace'')
             (Lines (content [''go.mod'' \<mapsto> File ''require a\<newline>replace a => ./b\<newline>require c'']
                ''go.mod''))). line = [] \<or> last line \<noteq> CR"
    by (simp add: run_defs)
  from deleteLinesWithReplace_twice[OF h] k
  have "deleteLinesWithReplace noFaults
     [''go.mod'' \<mapsto> File ''require a\<newline>require c\<newline>''] ''go.mod''
     = Inr [''go.mod'' \<mapsto> File ''require a\<newline>require c\<newline>'']"
    by blast
  with h show ?thesis by (rule conjI)
qed

text \<open>
  Claim C6 as stated fails on \<^verbatim>\<open>require a\r\r\n\<close>: the first run leaves
  \<^verbatim>\<open>require a\r\n\<close>, the second \<^verbatim>\<open>require a\n\<close>.
\<close>

theorem deleteLinesWithReplace_twice_counterexample:
  "deleteLinesWithReplace noFaults [''go.mod'' \<mapsto> File (''require a'' @ [CR, CR, LF])] ''go.mod''
     = Inr [''go.mod'' \<mapsto> File (''require a'' @ [CR, LF])]
   \<and> deleteLinesWithReplace noFaults [''go.mod'' \<mapsto> File (''require a'' @ [CR, LF])] ''go.mod''
     = Inr [''go.mod'' \<mapsto> File (''require a'' @ [LF])]
   \<and> content [''go.mod'' \<mapsto> File (''require a'' @ [LF])] ''go.mod''
     \<noteq> content [''go.mod'' \<mapsto> File (''require a'' @ [CR, LF])] ''go.mod''"
  by (simp add: run_defs)

text \<open>
  Claim C10. The stripper does not keep the bytes of the lines it retains: the new
  content is every retained line followed by one newline, so it is empty or ends with a
  newline, a manifest that does not end with a newline is changed, and in a manifest of
  CRLF-terminated lines every retained line loses its carriage return.
\<close>

theorem deleteLinesWithReplace_bytes:
  assumes "deleteLinesWithReplace io fsys filePath = Inr fs'"
  shows "content fs' filePath = concat (map (\<lambda>line. line @ [LF])
           (filter (\<lambda>line. \<not> HasPrefix line ''replace'') (Lines (content fsys filePath))))
       \<and> (content fs' filePath = [] \<or> last (content fs' filePath) = LF)
       \<and> (content fsys filePath \<noteq> [] \<and> last (content fsys filePath) \<noteq> LF \<longrightarrow>
            content fs' filePath \<noteq> content fsys filePath)
       \<and> (\<forall>ls. (\<forall>l\<in>set ls. LF \<notin> set l) \<and>
                content fsys filePath = concat (map (\<lambda>l. l @ [CR, LF]) ls) \<longrightarrow>
                content fs' filePath = concat (map (\<lambda>line. line @ [LF])
                  (filter (\<lambda>line. \<not> HasPrefix line ''replace'') ls)))"
proof -
  let ?kept = "filter (\<lambda>line. \<not> HasPrefix line ''replace'') (Lines (content fsys filePath))"
  have a: "content fs' filePath = concat (map (\<lambda>line. line @ [LF]) ?kept)"
    by (rule deleteLinesWithReplace_content[OF assms])
  have b: "content fs' filePath = [] \<or> last (content fs' filePath) = LF"
  proof (cases "?kept = []")
    case True
    then show ?thesis using a by simp
  next
    case False
    then show ?thesis using a last_concat_LF[of ?kept] by simp
  qed
  have c: "content fsys filePath \<noteq> [] \<and> last (content fsys filePath) \<noteq> LF \<longrightarrow>
            content fs' filePath \<noteq> content fsys filePath"
    using b by auto
  have d: "content fs' filePath = concat (map (\<lambda>line. line @ [LF])
             (filter (\<lambda>line. \<not> HasPrefix line ''replace'') ls))"
    if "\<forall>l\<in>set ls. LF \<notin> set l"
      and "content fsys filePath = concat (map (\<lambda>l. l @ [CR, LF]) ls)" for ls
  proof -
    from assms have "snd (scan (content fsys filePath)) = None"
      unfolding deleteLinesWithReplace_Inr_iff by (auto simp: content_def)
    then have "Lines (content fsys filePath) = ls"
      using scan_crlf[OF that(1)] that(2) by (simp add: Lines_def)
    then show ?thesis using a by simp
  qed
  from a b c d show ?thesis by blast
qed

theorem deleteLinesWithReplace_bytes_witness:
  "deleteLinesWithReplace noFaults
     [''go.mod'' \<mapsto> File (''require a'' @ [CR, LF] @ ''replace a => ./b'' @ [CR, LF] @ ''require c'')]
     ''go.mod''
     = Inr [''go.mod'' \<mapsto> File ''require a\<newline>require c\<newline>'']
   \<and> content [''go.mod'' \<mapsto> File ''require a\<newline>require c\<newline>''] ''go.mod''
     = ''require a'' @ [LF] @ ''require c'' @ [LF]
   \<and> content [''go.mod'' \<mapsto> File ''require a\<newline>require c\<newline>''] ''go.mod''
     \<noteq> content [''go.mod'' \<mapsto> File (''require a'' @ [CR, LF] @ ''replace a => ./b'' @ [CR, LF] @ ''require c'')]
         ''go.mod''"
proof -
  have h: "deleteLinesWithReplace noFaults
     [''go.mod'' \<mapsto> File (''require a'' @ [CR, LF] @ ''replace a => ./b'' @ [CR, LF] @ ''require c'')]
     ''go.mod''
     = Inr [''go.mod'' \<mapsto> File ''require a\<newline>require c\<newline>'']"
    by (simp add: run_defs)
  note t = deleteLinesWithReplace_bytes[OF h]
  from t have "content [''go.mod'' \<mapsto> File ''require a\<newline>require c\<newline>''] ''go.mod'' =
      concat (map (\<lambda>line. line @ [LF]) (filter (\<lambda>line. \<not> HasPrefix line ''replace'')
        (Lines (content [''go.mod'' \<mapsto> File (''require a'' @ [CR, LF] @ ''replace a => ./b'' @ [CR, LF] @ ''require c'')]
           ''go.mod''))))"
    by (rule conjunct1)
  also have "\<dots> = ''require a'' @ [LF] @ ''require c'' @ [LF]"
    by (simp add: run_defs)
  finally have a: "content [''go.mod'' \<mapsto> File ''require a\<newline>require c\<newline>''] ''go.mod''
     = ''require a'' @ [LF] @ ''require c'' @ [LF]" .
  have n: "content [''go.mod'' \<mapsto> File (''require a'' @ [CR, LF] @ ''replace a => ./b'' @ [CR, LF] @ ''require c'')]
         ''go.mod'' \<noteq> [] \<and>
       last (content [''go.mod'' \<mapsto> File (''require a'' @ [CR, LF] @ ''replace a => ./b'' @ [CR, LF] @ ''require c'')]
         ''go.mod'') \<noteq> LF"
    by (simp add: content_def)
  from t n have b: "content [''go.mod'' \<mapsto> File ''require a\<newline>require c\<newline>''] ''go.mod''
     \<noteq> content [''go.mod'' \<mapsto> File (''require a'' @ [CR, LF] @ ''replace a => ./b'' @ [CR, LF] @ ''require c'')]
         ''go.mod''"
    by blast
  from h a b show ?thesis by blast
qed

subsection \<open>The directive appender\<close>

lemmas append_defs = appendModReplace_def os_ReadFile_def os_Open_def readAll_def
  os_CreateTemp_def WriteString_def os_Rename_def noFaults_def directive_def content_def

lemma appendLoop_eq:
  "appendLoop io replace tempFile =
     (case writeErr io of
        None \<Rightarrow> Inr (tempFile @ concat (map directive replace))
      | Some e \<Rightarrow> if replace = [] then Inr tempFile else Inl e)"
  by (induction replace arbitrary: tempFile)
     (auto simp: WriteString_def split: option.splits)

lemma appendModReplace_Inr_iff:
  "appendModReplace io fsys gomod replace = Inr fs' \<longleftrightarrow>
     (\<exists>data. fsys gomod = Some (File data) \<and> readErr io = None \<and>
        createTempErr io = None \<and> writeErr io = None \<and> closeErr io = None \<and>
        renameErr io = None \<and>
        fs' = fsys(gomod \<mapsto> File (data @ concat (map directive replace))))"
proof (cases "fsys gomod")
  case None
  then show ?thesis by (simp add: appendModReplace_def os_ReadFile_def os_Open_def)
next
  case (Some n)
  then show ?thesis
    by (cases n)
       (auto simp: appendModReplace_def os_ReadFile_def os_Open_def readAll_def
          os_CreateTemp_def WriteString_def appendLoop_eq os_Rename_def
        split: option.splits)
qed

text \<open>
  Claim C3. After the appender succeeds, the manifest is its prior bytes, unchanged,
  followed by one line \<^verbatim>\<open>replace <find> => <replace>\<close> with a newline for each entry of
  the match set, in the order of the match set; no other path of the file system changes.
\<close>

theorem appendModReplace_appends:
  assumes "appendModReplace io fsys gomod replace = Inr fs'"
  shows "fsys gomod = Some (File (content fsys gomod))
       \<and> fs' = fsys(gomod \<mapsto> File (content fsys gomod @
               concat (map (\<lambda>cmd. ''replace '' @ Find cmd @ '' => '' @ Replace cmd @ [LF])
                         replace)))
       \<and> content fs' gomod = content fsys gomod @
               concat (map (\<lambda>cmd. ''replace '' @ Find cmd @ '' => '' @ Replace cmd @ [LF])
                         replace)"
proof -
  from assms obtain data where d: "fsys gomod = Some (File data)"
    and f: "fs' = fsys(gomod \<mapsto> File (data @ concat (map directive replace)))"
    unfolding appendModReplace_Inr_iff by blast
  have c: "content fsys gomod = data" using d by (simp add: content_def)
  have m: "map directive replace =
             map (\<lambda>cmd. ''replace '' @ Find cmd @ '' => '' @ Replace cmd @ [LF]) replace"
    by (simp add: directive_def)
  show ?thesis using d f c unfolding m by (simp add: content_def)
qed

theorem appendModReplace_appends_witness:
  "appendModReplace noFaults [''go.mod'' \<mapsto> File ''require foo/bar v1.0.0''] ''go.mod''
     [\<lparr>Find = ''foo/bar'', Replace = ''../local/bar''\<rparr>, \<lparr>Find = ''foo'', Replace = ''../foo''\<rparr>]
     = Inr [''go.mod'' \<mapsto> File
             ''require foo/bar v1.0.0replace foo/bar => ../local/bar\<newline>replace foo => ../foo\<newline>'']
   \<and> content [''go.mod'' \<mapsto> File
             ''require foo/bar v1.0.0replace foo/bar => ../local/bar\<newline>replace foo => ../foo\<newline>'']
        ''go.mod''
     = content [''go.mod'' \<mapsto> File ''require foo/bar v1.0.0''] ''go.mod'' @
       ''replace foo/bar => ../local/bar\<newline>'' @ ''replace foo => ../foo\<newline>''"
proof -
  have h: "appendModReplace noFaults [''go.mod'' \<mapsto> File ''require foo/bar v1.0.0''] ''go.mod''
     [\<lparr>Find = ''foo/bar'', Replace = ''../local/bar''\<rparr>, \<lparr>Find = ''foo'', Replace = ''../foo''\<rparr>]
     = Inr [''go.mod'' \<mapsto> File
             ''require foo/bar v1.0.0replace foo/bar => ../local/bar\<newline>replace foo => ../foo\<newline>'']"
    by (simp add: append_defs)
  from appendModReplace_appends[OF h]
  have "content [''go.mod'' \<mapsto> File
             ''require foo/bar v1.0.0replace foo/bar => ../local/bar\<newline>replace foo => ../foo\<newline>'']
        ''go.mod''
     = content [''go.mod'' \<mapsto> File ''require foo/bar v1.0.0''] ''go.mod'' @
       concat (map (\<lambda>cmd. ''replace '' @ Find cmd @ '' => '' @ Replace cmd @ [LF])
         [\<lparr>Find = ''foo/bar'', Replace = ''../local/bar''\<rparr>, \<lparr>Find = ''foo'', Replace = ''../foo''\<rparr>])"
    by blast
  then have "content [''go.mod'' \<mapsto> File
             ''require foo/bar v1.0.0replace foo/bar => ../local/bar\<newline>replace foo => ../foo\<newline>'']
        ''go.mod''
     = content [''go.mod'' \<mapsto> File ''require foo/bar v1.0.0''] ''go.mod'' @
       ''replace foo/bar => ../local/bar\<newline>'' @ ''replace foo => ../foo\<newline>''"
    by simp
  with h show ?thesis by (rule conjI)
qed

subsection \<open>The local-path validator\<close>

lemmas validate_defs = validateLocalReposExist_def dirExists_def os_Stat_def Let_def

lemma dirExists_cases:
  "dirExists fsys path =
     (case fsys path of
        None \<Rightarrow> (False, None)
      | Some (File c) \<Rightarrow> (False, None)
      | Some Dir \<Rightarrow> (True, None)
      | Some (Inaccessible e) \<Rightarrow>
          if e = ENOENT then (False, None) else (False, Some (PathError ''stat'' path e)))"
  by (simp add: dirExists_def os_Stat_def split: option.splits node.splits)

lemma dirExists_True_iff: "dirExists fsys path = (True, None) \<longleftrightarrow> fsys path = Some Dir"
  by (simp add: dirExists_cases split: option.splits node.splits)

lemma collectMissing_eq:
  "collectMissing fsys replace missing =
     missing @ map (\<lambda>cmd. case snd (dirExists fsys (Replace cmd)) of
                            Some e \<Rightarrow> Error e | None \<Rightarrow> Replace cmd)
                 (filter (\<lambda>cmd. fsys (Replace cmd) \<noteq> Some Dir) replace)"
proof (induction replace arbitrary: missing)
  case Nil
  then show ?case by simp
next
  case (Cons cmd replace)
  show ?case
  proof (cases "fsys (Replace cmd) = Some Dir")
    case True
    then have "dirExists fsys (Replace cmd) = (True, None)" by (simp add: dirExists_True_iff)
    then show ?thesis using True Cons.IH by simp
  next
    case False
    then have ne: "dirExists fsys (Replace cmd) \<noteq> (True, None)"
      by (simp add: dirExists_True_iff)
    obtain ex er where de: "dirExists fsys (Replace cmd) = (ex, er)"
      by (cases "dirExists fsys (Replace cmd)")
    show ?thesis
    proof (cases er)
      case None
      with de ne have "\<not> ex" by auto
      then show ?thesis using de None False Cons.IH by simp
    next
      case (Some e)
      then show ?thesis using de False Cons.IH by simp
    qed
  qed
qed

lemma Join_contains:
  "x \<in> set xs \<Longrightarrow> \<exists>pre suf. Join xs sep = pre @ x @ suf"
proof (induction xs sep rule: Join.induct)
  case (1 sep)
  then show ?case by simp
next
  case (2 a sep)
  then have "Join [a] sep = [] @ x @ []" by simp
  then show ?case by blast
next
  case (3 a b elems sep)
  show ?case
  proof (cases "x = a")
    case True
    then have "Join (a # b # elems) sep = [] @ x @ (sep @ Join (b # elems) sep)" by simp
    then show ?thesis by blast
  next
    case False
    with "3.prems" have "x \<in> set (b # elems)" by simp
    then obtain pre suf where "Join (b # elems) sep = pre @ x @ suf"
      using "3.IH" by blast
    then have "Join (a # b # elems) sep = (a @ sep @ pre) @ x @ suf" by simp
    then show ?thesis by blast
  qed
qed

lemma entry_contains:
  "\<exists>pre suf. (case snd (dirExists fsys path) of Some e \<Rightarrow> Error e | None \<Rightarrow> path)
               = pre @ path @ suf"
proof (cases "snd (dirExists fsys path)")
  case None
  then have "(case snd (dirExists fsys path) of Some e \<Rightarrow> Error e | None \<Rightarrow> path)
               = [] @ path @ []" by simp
  then show ?thesis by blast
next
  case (Some e)
  then obtain n where "e = PathError ''stat'' path n"
    by (auto simp: dirExists_cases split: option.splits node.splits if_splits)
  then have "(case snd (dirExists fsys path) of Some e \<Rightarrow> Error e | None \<Rightarrow> path)
               = ''stat '' @ path @ ('': '' @ errnoText n)"
    using Some by simp
  then show ?thesis by blast
qed

lemma validateLocalReposExist_eq:
  "validateLocalReposExist fsys replace =
     (if filter (\<lambda>cmd. fsys (Replace cmd) \<noteq> Some Dir) replace \<noteq> []
      then Some (Errorf (''replace module error(s) or missing:'' @ [LF] @
             Join (map (\<lambda>cmd. case snd (dirExists fsys (Replace cmd)) of
                                Some e \<Rightarrow> Error e | None \<Rightarrow> Replace cmd)
                     (filter (\<lambda>cmd. fsys (Replace cmd) \<noteq> Some Dir) replace)) [LF]))
      else None)"
  by (simp add: validateLocalReposExist_def collectMissing_eq Let_def)

lemma validateLocalReposExist_None_iff:
  "validateLocalReposExist fsys replace = None \<longleftrightarrow>
     (\<forall>cmd\<in>set replace. fsys (Replace cmd) = Some Dir)"
  unfolding validateLocalReposExist_eq by (auto simp: filter_empty_conv)

lemma validateLocalReposExist_contains:
  assumes "validateLocalReposExist fsys replace = Some err"
    and "cmd \<in> set replace" and "fsys (Replace cmd) \<noteq> Some Dir"
  shows "Contains (Error err) (Replace cmd)"
proof -
  let ?entry = "\<lambda>cmd. case snd (dirExists fsys (Replace cmd)) of
                        Some e \<Rightarrow> Error e | None \<Rightarrow> Replace cmd"
  let ?bad = "filter (\<lambda>cmd. fsys (Replace cmd) \<noteq> Some Dir) replace"
  have b: "Error err = ''replace module error(s) or missing:'' @ [LF] @ Join (map ?entry ?bad) [LF]"
    using assms(1) unfolding validateLocalReposExist_eq by (auto split: if_splits)
  from assms(2,3) have "?entry cmd \<in> set (map ?entry ?bad)" by simp
  then obtain pre suf where j: "Join (map ?entry ?bad) [LF] = pre @ ?entry cmd @ suf"
    using Join_contains by blast
  obtain p2 s2 where e: "?entry cmd = p2 @ Replace cmd @ s2"
    using entry_contains[where fsys=fsys and path="Replace cmd"] by blast
  have "Error err =
          (''replace module error(s) or missing:'' @ [LF] @ pre @ p2) @ Replace cmd @ (s2 @ suf)"
    unfolding b j e by simp
  then show ?thesis unfolding Contains_iff by blast
qed

text \<open>
  Claim C4. Validation returns an error exactly when the replace path of some matched
  rule is not a directory of the file system (it is missing, it is a regular file, or
  \<^verbatim>\<open>os.Stat\<close> fails on it). The loop does not stop at the first failure: the message
  is the header line followed by one entry for every offending rule, in match-set order
  and joined by newlines, the entry being the path or, when \<^verbatim>\<open>os.Stat\<close> failed with an
  error other than "not exist", the text of that error; so the message contains every
  offending path.
\<close>

theorem validateLocalReposExist_report:
  "(validateLocalReposExist fsys replace \<noteq> None) =
     (\<exists>cmd\<in>set replace. fsys (Replace cmd) \<noteq> Some Dir)
   \<and> (\<forall>err. validateLocalReposExist fsys replace = Some err \<longrightarrow>
         Error err = ''replace module error(s) or missing:'' @ [LF] @
           Join (map (\<lambda>cmd. case snd (dirExists fsys (Replace cmd)) of
                              Some e \<Rightarrow> Error e | None \<Rightarrow> Replace cmd)
                   (filter (\<lambda>cmd. fsys (Replace cmd) \<noteq> Some Dir) replace)) [LF]
         \<and> (\<forall>cmd\<in>set replace. fsys (Replace cmd) \<noteq> Some Dir \<longrightarrow>
               Contains (Error err) (Replace cmd)))"
proof -
  have a: "(validateLocalReposExist fsys replace \<noteq> None) =
             (\<exists>cmd\<in>set replace. fsys (Replace cmd) \<noteq> Some Dir)"
    using validateLocalReposExist_None_iff[of fsys replace] by auto
  have b: "Error err = ''replace module error(s) or missing:'' @ [LF] @
           Join (map (\<lambda>cmd. case snd (dirExists fsys (Replace cmd)) of
                              Some e \<Rightarrow> Error e | None \<Rightarrow> Replace cmd)
                   (filter (\<lambda>cmd. fsys (Replace cmd) \<noteq> Some Dir) replace)) [LF]"
    if "validateLocalReposExist fsys replace = Some err" for err
    using that unfolding validateLocalReposExist_eq by (auto split: if_splits)
  have c: "Contains (Error err) (Replace cmd)"
    if "validateLocalReposExist fsys replace = Some err" and "cmd \<in> set replace"
      and "fsys (Replace cmd) \<noteq> Some Dir" for err cmd
    using that by (rule validateLocalReposExist_contains)
  from a b c show ?thesis by blast
qed

theorem validateLocalReposExist_report_witness:
  "validateLocalReposExist
     [''../local/baz'' \<mapsto> Dir, ''../local/qux'' \<mapsto> Inaccessible (Errno ''permission denied'')]
     [\<lparr>Find = ''foo/bar'', Replace = ''../local/bar''\<rparr>,
      \<lparr>Find = ''foo/baz'', Replace = ''../local/baz''\<rparr>,
      \<lparr>Find = ''foo/qux'', Replace = ''../local/qux''\<rparr>]
     = Some (Errorf (''replace module error(s) or missing:'' @ [LF] @ ''../local/bar'' @ [LF] @
                     ''stat ../local/qux: permission denied''))
   \<and> Contains (''replace module error(s) or missing:'' @ [LF] @ ''../local/bar'' @ [LF] @
                     ''stat ../local/qux: permission denied'') ''../local/bar''
   \<and> Contains (''replace module error(s) or missing:'' @ [LF] @ ''../local/bar'' @ [LF] @
                     ''stat ../local/qux: permission denied'') ''../local/qux''"
proof -
  let ?fs = "[''../local/baz'' \<mapsto> Dir,
              ''../local/qux'' \<mapsto> Inaccessible (Errno ''permission denied'')]"
  let ?rs = "[\<lparr>Find = ''foo/bar'', Replace = ''../local/bar''\<rparr>,
      \<lparr>Find = ''foo/baz'', Replace = ''../local/baz''\<rparr>,
      \<lparr>Find = ''foo/qux'', Replace = ''../local/qux''\<rparr>]"
  let ?err = "Errorf (''replace module error(s) or missing:'' @ [LF] @ ''../local/bar'' @ [LF] @
                     ''stat ../local/qux: permission denied'')"
  have h: "validateLocalReposExist ?fs ?rs = Some ?err"
    by (simp add: validate_defs)
  have "Contains (Error ?err) (Replace cmd)"
    if "cmd \<in> set ?rs" and "?fs (Replace cmd) \<noteq> Some Dir" for cmd
    using validateLocalReposExist_report[of ?fs ?rs] h that by blast
  from this[of "\<lparr>Find = ''foo/bar'', Replace = ''../local/bar''\<rparr>"]
       this[of "\<lparr>Find = ''foo/qux'', Replace = ''../local/qux''\<rparr>"]
  have "Contains (Error ?err) ''../local/bar'' \<and> Contains (Error ?err) ''../local/qux''"
    by simp
  then show ?thesis using h by simp
qed

subsection \<open>A rule with an empty find-string\<close>

lemma count_list_map_le: "count_list xs x \<le> count_list (map f xs) (f x)"
  by (induction xs) auto

lemma concat_map_single: "concat (map (\<lambda>line. [r]) ls) = replicate (length ls) r"
  by (induction ls) simp_all


text \<open>
  Claim C9. A rule whose find-string is empty is contained in every line, so in the
  match set of a manifest of \<open>n\<close> lines every entry of the rule in the configuration
  occurs \<open>n\<close> times (the match set of the rule alone is \<open>n\<close> copies of it). When
  no write, close or rename fails, the appender succeeds on this match set and leaves
  the manifest's bytes followed by one line \<^verbatim>\<open>replace <find> => <replace>\<close> per entry
  of the match set; the line \<^verbatim>\<open>replace  => <replace>\<close> of the rule is among them at
  least \<open>n\<close> times per entry, and for the rule alone the appended bytes are exactly
  \<open>n\<close> copies of that line.
\<close>

theorem findMatchesInFile_empty_find:
  assumes "Find r = []"
    and "findMatchesInFile io fsys filePath finds = Inr found"
  shows "(\<forall>line. Contains line (Find r))
       \<and> count_list found r = length (Lines (content fsys filePath)) * count_list finds r
       \<and> (finds = [r] \<longrightarrow> found = replicate (length (Lines (content fsys filePath))) r)
       \<and> (\<forall>fs'. appendModReplace io fsys filePath found = Inr fs' \<longrightarrow>
             content fs' filePath = content fsys filePath @ concat (map directive found)
           \<and> length (Lines (content fsys filePath)) * count_list finds r
               \<le> count_list (map directive found) (directive r))
       \<and> (createTempErr io = None \<and> writeErr io = None \<and> closeErr io = None \<and>
          renameErr io = None \<longrightarrow>
            appendModReplace io fsys filePath found =
              Inr (fsys(filePath \<mapsto> File (content fsys filePath @
                concat (map (\<lambda>cmd. ''replace '' @ Find cmd @ '' => '' @ Replace cmd @ [LF])
                          found))))
          \<and> length (Lines (content fsys filePath)) * count_list finds r
               \<le> count_list
                    (map (\<lambda>cmd. ''replace '' @ Find cmd @ '' => '' @ Replace cmd @ [LF]) found)
                    (''replace  => '' @ Replace r @ [LF])
          \<and> (finds = [r] \<longrightarrow>
                appendModReplace io fsys filePath found =
                  Inr (fsys(filePath \<mapsto> File (content fsys filePath @
                    concat (replicate (length (Lines (content fsys filePath)))
                              (''replace  => '' @ Replace r @ [LF])))))))"
proof -
  let ?ls = "Lines (content fsys filePath)"
  let ?dir = "\<lambda>cmd. ''replace '' @ Find cmd @ '' => '' @ Replace cmd @ [LF]"
  from assms(2) obtain data where d: "fsys filePath = Some (File data)"
    and rd: "readErr io = None"
    and f: "found = concat (map (\<lambda>line. filter (\<lambda>cmd. Contains line (Find cmd)) finds) (Lines data))"
    unfolding findMatchesInFile_Inr_iff by blast
  have cd: "content fsys filePath = data" using d by (simp add: content_def)
  have dd: "directive = ?dir" by (rule ext) (simp add: directive_def)
  have dr: "?dir r = ''replace  => '' @ Replace r @ [LF]" using assms(1) by simp
  have a: "\<forall>line. Contains line (Find r)" using assms(1) by simp
  have "count_list found r =
          count_list finds r * length (filter (\<lambda>line. Contains line (Find r)) ?ls)"
    unfolding f cd
    by (rule count_list_concat_filter[of "\<lambda>line cmd. Contains line (Find cmd)" finds "Lines data" r])
  then have b: "count_list found r = length ?ls * count_list finds r"
    using a by (simp add: mult.commute)
  have c: "found = replicate (length ?ls) r" if "finds = [r]"
  proof -
    have "(\<lambda>line. filter (\<lambda>cmd. Contains line (Find cmd)) [r]) = (\<lambda>line. [r])"
      using assms(1) by simp
    then show ?thesis unfolding f cd that by (simp only: concat_map_single)
  qed
  have le: "length ?ls * count_list finds r \<le> count_list (map ?dir found) (?dir r)"
    using count_list_map_le[of found r ?dir] b by simp
  have e: "content fs' filePath = content fsys filePath @ concat (map directive found)
           \<and> length ?ls * count_list finds r \<le> count_list (map directive found) (directive r)"
    if "appendModReplace io fsys filePath found = Inr fs'" for fs'
  proof -
    from that have "fs' = fsys(filePath \<mapsto> File (data @ concat (map directive found)))"
      unfolding appendModReplace_Inr_iff using d by auto
    then have "content fs' filePath = content fsys filePath @ concat (map directive found)"
      using cd by (simp add: content_def)
    moreover have "length ?ls * count_list finds r \<le> count_list (map directive found) (directive r)"
      using le unfolding dd .
    ultimately show ?thesis by simp
  qed
  have g: "appendModReplace io fsys filePath found =
              Inr (fsys(filePath \<mapsto> File (content fsys filePath @ concat (map ?dir found))))
          \<and> length ?ls * count_list finds r
               \<le> count_list (map ?dir found) (''replace  => '' @ Replace r @ [LF])
          \<and> (finds = [r] \<longrightarrow>
                appendModReplace io fsys filePath found =
                  Inr (fsys(filePath \<mapsto> File (content fsys filePath @
                    concat (replicate (length ?ls) (''replace  => '' @ Replace r @ [LF]))))))"
    if ok: "createTempErr io = None \<and> writeErr io = None \<and> closeErr io = None \<and>
            renameErr io = None"
  proof -
    have run: "appendModReplace io fsys filePath found =
                 Inr (fsys(filePath \<mapsto> File (content fsys filePath @ concat (map ?dir found))))"
      unfolding appendModReplace_Inr_iff dd cd using d rd ok by simp
    have le': "length ?ls * count_list finds r
                 \<le> count_list (map ?dir found) (''replace  => '' @ Replace r @ [LF])"
      using le unfolding dr .
    have one: "appendModReplace io fsys filePath found =
                  Inr (fsys(filePath \<mapsto> File (content fsys filePath @
                    concat (replicate (length ?ls) (''replace  => '' @ Replace r @ [LF])))))"
      if "finds = [r]"
    proof -
      have "map ?dir found = replicate (length ?ls) (?dir r)"
        unfolding c[OF that] by (simp only: map_replicate)
      then have "map ?dir found = replicate (length ?ls) (''replace  => '' @ Replace r @ [LF])"
        unfolding dr .
      with run show ?thesis by (simp only:)
    qed
    from run le' one show ?thesis by blast
  qed
  from a b c e g show ?thesis by blast
qed

theorem findMatchesInFile_empty_find_witness:
  "Find \<lparr>Find = [], Replace = ''../local/x''\<rparr> = []
   \<and> findMatchesInFile noFaults [''go.mod'' \<mapsto> File ''module m\<newline>\<newline>require a v1\<newline>'']
       ''go.mod'' [\<lparr>Find = [], Replace = ''../local/x''\<rparr>]
     = Inr [\<lparr>Find = [], Replace = ''../local/x''\<rparr>, \<lparr>Find = [], Replace = ''../local/x''\<rparr>,
            \<lparr>Find = [], Replace = ''../local/x''\<rparr>]
   \<and> count_list [\<lparr>Find = [], Replace = ''../local/x''\<rparr>, \<lparr>Find = [], Replace = ''../local/x''\<rparr>,
            \<lparr>Find = [], Replace = ''../local/x''\<rparr>] \<lparr>Find = [], Replace = ''../local/x''\<rparr>
     = length (Lines (content [''go.mod'' \<mapsto> File ''module m\<newline>\<newline>require a v1\<newline>'']
         ''go.mod'')) * 1
   \<and> length (Lines (content [''go.mod'' \<mapsto> File ''module m\<newline>\<newline>require a v1\<newline>'']
         ''go.mod'')) = 3
   \<and> appendModReplace noFaults [''go.mod'' \<mapsto> File ''module m\<newline>\<newline>require a v1\<newline>'']
       ''go.mod''
       [\<lparr>Find = [], Replace = ''../local/x''\<rparr>, \<lparr>Find = [], Replace = ''../local/x''\<rparr>,
        \<lparr>Find = [], Replace = ''../local/x''\<rparr>]
     = Inr [''go.mod'' \<mapsto> File
         ''module m\<newline>\<newline>require a v1\<newline>replace  => ../local/x\<newline>replace  => ../local/x\<newline>replace  => ../local/x\<newline>'']"
proof -
  let ?r = "\<lparr>Find = [], Replace = ''../local/x''\<rparr>"
  let ?fs = "[''go.mod'' \<mapsto> File ''module m\<newline>\<newline>require a v1\<newline>'']"
  have e: "Find ?r = []" by simp
  have h: "findMatchesInFile noFaults ?fs ''go.mod'' [?r] = Inr [?r, ?r, ?r]"
    by (simp add: findMatchesInFile_def run_defs)
  note t = findMatchesInFile_empty_find[OF e h]
  from t
  have "count_list [?r, ?r, ?r] ?r = length (Lines (content ?fs ''go.mod'')) * count_list [?r] ?r"
    by blast
  then have a: "count_list [?r, ?r, ?r] ?r = length (Lines (content ?fs ''go.mod'')) * 1"
    by simp
  have b: "length (Lines (content ?fs ''go.mod'')) = 3" by (simp add: run_defs)
  have ok: "createTempErr noFaults = None \<and> writeErr noFaults = None \<and>
            closeErr noFaults = None \<and> renameErr noFaults = None"
    by (simp add: noFaults_def)
  from t ok
  have "appendModReplace noFaults ?fs ''go.mod'' [?r, ?r, ?r] =
          Inr (?fs(''go.mod'' \<mapsto> File (content ?fs ''go.mod'' @
            concat (replicate (length (Lines (content ?fs ''go.mod'')))
                      (''replace  => '' @ Replace ?r @ [LF])))))"
    by blast
  then have g: "appendModReplace noFaults ?fs ''go.mod'' [?r, ?r, ?r] =
      Inr [''go.mod'' \<mapsto> File
         ''module m\<newline>\<newline>require a v1\<newline>replace  => ../local/x\<newline>replace  => ../local/x\<newline>replace  => ../local/x\<newline>'']"
    unfolding b by (simp add: content_def numeral_3_eq_3)
  from e h a b g show ?thesis by blast
qed

subsection \<open>The whole program\<close>

lemma deleteLinesWithReplace_no_replace:
  assumes "deleteLinesWithReplace io fsys filePath = Inr fs'"
    and "line \<in> set (Lines (content fs' filePath))"
  shows "\<not> HasPrefix line ''replace''"
proof -
  from assms(2) obtain l
    where "l \<in> set (filter (\<lambda>line. \<not> HasPrefix line ''replace'') (Lines (content fsys filePath)))"
      and "line = dropCR l"
    unfolding deleteLinesWithReplace_Lines[OF assms(1)] by auto
  then show ?thesis using HasPrefix_dropCR[of l "''replace''"] by auto
qed

lemma findMatchesInFile_after_strip:
  assumes "deleteLinesWithReplace io fsys filePath = Inr fs1"
  shows "findMatchesInFile io fs1 filePath finds =
           Inr (concat (map (\<lambda>line. filter (\<lambda>cmd. Contains line (Find cmd)) finds)
                          (Lines (content fs1 filePath))))"
proof -
  let ?c1 = "concat (map (\<lambda>line. line @ [LF])
              (filter (\<lambda>line. \<not> HasPrefix line ''replace'') (Lines (content fsys filePath))))"
  from assms obtain data where d: "fsys filePath = Some (File data)"
    and r: "readErr io = None"
    and fs1: "fs1 = fsys(filePath \<mapsto> File (concat (map (\<lambda>line. line @ [LF])
                (filter (\<lambda>line. \<not> HasPrefix line ''replace'') (Lines data)))))"
    unfolding deleteLinesWithReplace_Inr_iff by blast
  have cd: "content fsys filePath = data" using d by (simp add: content_def)
  have n1: "fs1 filePath = Some (File ?c1)" using fs1 cd by simp
  have c1: "content fs1 filePath = ?c1" using n1 by (simp add: content_def)
  have sc: "snd (scan ?c1) = None" by (simp add: scan_stripped)
  show ?thesis
    unfolding findMatchesInFile_Inr_iff c1 using n1 r sc by blast
qed

text \<open>
  Claim C7. With the flag \<^verbatim>\<open>-clean\<close> set, the only call \<^verbatim>\<open>main\<close> makes is the one to
  the stripper: the configuration is not read and nothing is matched, validated or
  appended, so the run does not depend on the configuration path or on the decoder;
  when the stripper succeeds the process ends with status zero, the file system is the
  one the stripper left, and no line of the manifest starts with \<^verbatim>\<open>replace\<close>.
\<close>

theorem main_clean:
  assumes "clean fl"
  shows "calls (main unmarshal io fl fsys) = [Call_deleteLinesWithReplace]
       \<and> (\<forall>fs1. deleteLinesWithReplace io fsys (goModPath fl) = Inr fs1 \<longrightarrow>
            ending (main unmarshal io fl fsys) = Return
          \<and> exitStatus (ending (main unmarshal io fl fsys)) = 0
          \<and> final (main unmarshal io fl fsys) = fs1
          \<and> (\<forall>line\<in>set (Lines (content (final (main unmarshal io fl fsys)) (goModPath fl))).
                \<not> HasPrefix line ''replace''))
       \<and> (\<forall>unmarshal' config'.
            main unmarshal' io (fl\<lparr>goModConfigPath := config'\<rparr>) fsys = main unmarshal io fl fsys)"
proof -
  have a: "calls (main unmarshal io fl fsys) = [Call_deleteLinesWithReplace]"
    using assms by (simp add: main_def split: sum.splits)
  have b: "ending (main unmarshal io fl fsys) = Return
          \<and> exitStatus (ending (main unmarshal io fl fsys)) = 0
          \<and> final (main unmarshal io fl fsys) = fs1
          \<and> (\<forall>line\<in>set (Lines (content (final (main unmarshal io fl fsys)) (goModPath fl))).
                \<not> HasPrefix line ''replace'')"
    if h: "deleteLinesWithReplace io fsys (goModPath fl) = Inr fs1" for fs1
  proof -
    have m: "main unmarshal io fl fsys =
               \<lparr>calls = [Call_deleteLinesWithReplace], ending = Return, final = fs1\<rparr>"
      using assms h by (simp add: main_def)
    show ?thesis
      unfolding m using deleteLinesWithReplace_no_replace[OF h] by simp
  qed
  have c: "main unmarshal' io (fl\<lparr>goModConfigPath := config'\<rparr>) fsys = main unmarshal io fl fsys"
    for unmarshal' config'
    using assms by (simp add: main_def split: sum.splits)
  from a b c show ?thesis by blast
qed

theorem main_clean_witness:
  "clean \<lparr>goModPath = ''go.mod'', goModConfigPath = ''replace.yaml'', clean = True\<rparr>
   \<and> deleteLinesWithReplace noFaults
       [''go.mod'' \<mapsto> File ''module m\<newline>replace a => ./a\<newline>require a v1\<newline>replace c => ./c\<newline>'']
       ''go.mod''
     = Inr [''go.mod'' \<mapsto> File ''module m\<newline>require a v1\<newline>'']
   \<and> calls (main (\<lambda>bytes. Inl (YamlError ''yaml: not decoded'')) noFaults
         \<lparr>goModPath = ''go.mod'', goModConfigPath = ''replace.yaml'', clean = True\<rparr>
         [''go.mod'' \<mapsto> File ''module m\<newline>replace a => ./a\<newline>require a v1\<newline>replace c => ./c\<newline>''])
     = [Call_deleteLinesWithReplace]
   \<and> exitStatus (ending (main (\<lambda>bytes. Inl (YamlError ''yaml: not decoded'')) noFaults
         \<lparr>goModPath = ''go.mod'', goModConfigPath = ''replace.yaml'', clean = True\<rparr>
         [''go.mod'' \<mapsto> File ''module m\<newline>replace a => ./a\<newline>require a v1\<newline>replace c => ./c\<newline>'']))
     = 0
   \<and> final (main (\<lambda>bytes. Inl (YamlError ''yaml: not decoded'')) noFaults
         \<lparr>goModPath = ''go.mod'', goModConfigPath = ''replace.yaml'', clean = True\<rparr>
         [''go.mod'' \<mapsto> File ''module m\<newline>replace a => ./a\<newline>require a v1\<newline>replace c => ./c\<newline>''])
     = [''go.mod'' \<mapsto> File ''module m\<newline>require a v1\<newline>'']"
proof -
  let ?fl = "\<lparr>goModPath = ''go.mod'', goModConfigPath = ''replace.yaml'', clean = True\<rparr>"
  let ?fs = "[''go.mod'' \<mapsto> File ''module m\<newline>replace a => ./a\<newline>require a v1\<newline>replace c => ./c\<newline>'']"
  let ?dec = "\<lambda>bytes :: string. (Inl (YamlError ''yaml: not decoded'') :: error + FindReplace list)"
  have c: "clean ?fl" by simp
  have h: "deleteLinesWithReplace noFaults ?fs (goModPath ?fl)
             = Inr [''go.mod'' \<mapsto> File ''module m\<newline>require a v1\<newline>'']"
    by (simp add: run_defs)
  from main_clean[OF c, of ?dec noFaults ?fs] h
  have "calls (main ?dec noFaults ?fl ?fs) = [Call_deleteLinesWithReplace]
      \<and> exitStatus (ending (main ?dec noFaults ?fl ?fs)) = 0
      \<and> final (main ?dec noFaults ?fl ?fs) = [''go.mod'' \<mapsto> File ''module m\<newline>require a v1\<newline>'']"
    by blast
  with c h show ?thesis by simp
qed

text \<open>
  Claim C5. When stripping, loading and matching have succeeded and the replace path of
  some matched rule is not a directory, the process ends with status 1 through
  \<^verbatim>\<open>log.Fatal\<close> on the validator's error, whose message contains that path; the
  appender is not called, and the file system is the one the stripper left: the manifest
  is its kept lines, and none of its lines starts with \<^verbatim>\<open>replace\<close>.
\<close>

theorem main_missing_path:
  assumes "\<not> clean fl"
    and "deleteLinesWithReplace io fsys (goModPath fl) = Inr fs1"
    and "readYamlConfig unmarshal io fs1 (goModConfigPath fl) = Inr finds"
    and "findMatchesInFile io fs1 (goModPath fl) finds = Inr replace"
    and "cmd \<in> set replace"
    and "fs1 (Replace cmd) \<noteq> Some Dir"
  shows "exitStatus (ending (main unmarshal io fl fsys)) = 1
       \<and> (\<exists>err. ending (main unmarshal io fl fsys) = Fatal err
                \<and> validateLocalReposExist fs1 replace = Some err
                \<and> Contains (Error err) (Replace cmd))
       \<and> final (main unmarshal io fl fsys) = fs1
       \<and> calls (main unmarshal io fl fsys) =
           [Call_deleteLinesWithReplace, Call_readYamlConfig, Call_findMatchesInFile,
            Call_validateLocalReposExist]
       \<and> Call_appendModReplace \<notin> set (calls (main unmarshal io fl fsys))
       \<and> content (final (main unmarshal io fl fsys)) (goModPath fl) =
           concat (map (\<lambda>line. line @ [LF])
             (filter (\<lambda>line. \<not> HasPrefix line ''replace'') (Lines (content fsys (goModPath fl)))))
       \<and> (\<forall>line\<in>set (Lines (content (final (main unmarshal io fl fsys)) (goModPath fl))).
             \<not> HasPrefix line ''replace'')"
proof -
  let ?run = "main unmarshal io fl fsys"
  from assms(5,6) have "validateLocalReposExist fs1 replace \<noteq> None"
    unfolding validateLocalReposExist_None_iff by blast
  then obtain err where v: "validateLocalReposExist fs1 replace = Some err" by blast
  have m: "?run =
             \<lparr>calls = [Call_deleteLinesWithReplace, Call_readYamlConfig, Call_findMatchesInFile,
                       Call_validateLocalReposExist],
              ending = Fatal err, final = fs1\<rparr>"
    using assms(1-4) v by (simp add: main_def)
  have c: "Contains (Error err) (Replace cmd)"
    by (rule validateLocalReposExist_contains[where fsys=fs1 and replace=replace,
          OF v assms(5) assms(6)])
  have en: "ending ?run = Fatal err" by (simp only: m run.select_convs)
  have fi: "final ?run = fs1" by (simp only: m run.select_convs)
  have ca: "calls ?run = [Call_deleteLinesWithReplace, Call_readYamlConfig,
              Call_findMatchesInFile, Call_validateLocalReposExist]"
    by (simp only: m run.select_convs)
  have p1: "exitStatus (ending ?run) = 1" unfolding en by simp
  have p2: "\<exists>err. ending ?run = Fatal err \<and> validateLocalReposExist fs1 replace = Some err
                \<and> Contains (Error err) (Replace cmd)"
    using en v c by blast
  have p5: "Call_appendModReplace \<notin> set (calls ?run)" unfolding ca by simp
  have p6: "content (final ?run) (goModPath fl) =
           concat (map (\<lambda>line. line @ [LF])
             (filter (\<lambda>line. \<not> HasPrefix line ''replace'') (Lines (content fsys (goModPath fl)))))"
    unfolding fi by (rule deleteLinesWithReplace_content[OF assms(2)])
  have p7: "\<forall>line\<in>set (Lines (content (final ?run) (goModPath fl))). \<not> HasPrefix line ''replace''"
    unfolding fi using deleteLinesWithReplace_no_replace[OF assms(2)] by blast
  from p1 p2 fi ca p5 p6 p7 show ?thesis by blast
qed

theorem main_missing_path_witness:
  "deleteLinesWithReplace noFaults
       [''replace.yaml'' \<mapsto> File ''- find: foo/bar\<newline>  replace: ../local/bar\<newline>'',
        ''go.mod'' \<mapsto> File ''require foo/bar v1.0.0\<newline>replace foo/bar => ./old\<newline>'']
       ''go.mod''
     = Inr [''replace.yaml'' \<mapsto> File ''- find: foo/bar\<newline>  replace: ../local/bar\<newline>'',
            ''go.mod'' \<mapsto> File ''require foo/bar v1.0.0\<newline>'']
   \<and> ending (main
         (\<lambda>bytes. if bytes = ''- find: foo/bar\<newline>  replace: ../local/bar\<newline>''
                   then Inr [\<lparr>Find = ''foo/bar'', Replace = ''../local/bar''\<rparr>]
                   else Inl (YamlError ''yaml: not decoded''))
         noFaults
         \<lparr>goModPath = ''go.mod'', goModConfigPath = ''replace.yaml'', clean = False\<rparr>
         [''replace.yaml'' \<mapsto> File ''- find: foo/bar\<newline>  replace: ../local/bar\<newline>'',
          ''go.mod'' \<mapsto> File ''require foo/bar v1.0.0\<newline>replace foo/bar => ./old\<newline>''])
     = Fatal (Errorf ''replace module error(s) or missing:\<newline>../local/bar'')
   \<and> exitStatus (ending (main
         (\<lambda>bytes. if bytes = ''- find: foo/bar\<newline>  replace: ../local/bar\<newline>''
                   then Inr [\<lparr>Find = ''foo/bar'', Replace = ''../local/bar''\<rparr>]
                   else Inl (YamlError ''yaml: not decoded''))
         noFaults
         \<lparr>goModPath = ''go.mod'', goModConfigPath = ''replace.yaml'', clean = False\<rparr>
         [''replace.yaml'' \<mapsto> File ''- find: foo/bar\<newline>  replace: ../local/bar\<newline>'',
          ''go.mod'' \<mapsto> File ''require foo/bar v1.0.0\<newline>replace foo/bar => ./old\<newline>''])) = 1
   \<and> final (main
         (\<lambda>bytes. if bytes = ''- find: foo/bar\<newline>  replace: ../local/bar\<newline>''
                   then Inr [\<lparr>Find = ''foo/bar'', Replace = ''../local/bar''\<rparr>]
                   else Inl (YamlError ''yaml: not decoded''))
         noFaults
         \<lparr>goModPath = ''go.mod'', goModConfigPath = ''replace.yaml'', clean = False\<rparr>
         [''replace.yaml'' \<mapsto> File ''- find: foo/bar\<newline>  replace: ../local/bar\<newline>'',
          ''go.mod'' \<mapsto> File ''require foo/bar v1.0.0\<newline>replace foo/bar => ./old\<newline>''])
     = [''replace.yaml'' \<mapsto> File ''- find: foo/bar\<newline>  replace: ../local/bar\<newline>'',
        ''go.mod'' \<mapsto> File ''require foo/bar v1.0.0\<newline>'']"
proof -
  let ?fl = "\<lparr>goModPath = ''go.mod'', goModConfigPath = ''replace.yaml'', clean = False\<rparr>"
  let ?fs = "[''replace.yaml'' \<mapsto> File ''- find: foo/bar\<newline>  replace: ../local/bar\<newline>'',
          ''go.mod'' \<mapsto> File ''require foo/bar v1.0.0\<newline>replace foo/bar => ./old\<newline>'']"
  let ?fs1 = "[''replace.yaml'' \<mapsto> File ''- find: foo/bar\<newline>  replace: ../local/bar\<newline>'',
        ''go.mod'' \<mapsto> File ''require foo/bar v1.0.0\<newline>'']"
  let ?r = "\<lparr>Find = ''foo/bar'', Replace = ''../local/bar''\<rparr>"
  let ?dec = "\<lambda>bytes. if bytes = ''- find: foo/bar\<newline>  replace: ../local/bar\<newline>''
                   then Inr [?r]
                   else Inl (YamlError ''yaml: not decoded'')"
  have c: "\<not> clean ?fl" by simp
  have h: "deleteLinesWithReplace noFaults ?fs (goModPath ?fl) = Inr ?fs1"
    by (simp add: run_defs)
  have y: "readYamlConfig ?dec noFaults ?fs1 (goModConfigPath ?fl) = Inr [?r]"
    by (simp add: readYamlConfig_def os_Open_def readAll_def noFaults_def)
  have f: "findMatchesInFile noFaults ?fs1 (goModPath ?fl) [?r] = Inr [?r]"
    by (simp add: findMatchesInFile_def run_defs)
  have i: "?r \<in> set [?r]" by simp
  have n: "?fs1 (Replace ?r) \<noteq> Some Dir" by simp
  have v: "validateLocalReposExist ?fs1 [?r]
             = Some (Errorf ''replace module error(s) or missing:\<newline>../local/bar'')"
    by (simp add: validate_defs)
  note t = main_missing_path[OF c h y f i n]
  from t obtain err where en: "ending (main ?dec noFaults ?fl ?fs) = Fatal err"
    and ve: "validateLocalReposExist ?fs1 [?r] = Some err"
    by blast
  from ve v have "err = Errorf ''replace module error(s) or missing:\<newline>../local/bar''"
    by (simp only: option.inject)
  with en have e: "ending (main ?dec noFaults ?fl ?fs)
                      = Fatal (Errorf ''replace module error(s) or missing:\<newline>../local/bar'')"
    by (simp only:)
  from t have "exitStatus (ending (main ?dec noFaults ?fl ?fs)) = 1
             \<and> final (main ?dec noFaults ?fl ?fs) = ?fs1"
    by blast
  with e h show ?thesis by simp
qed

text \<open>
  Claim C8. When stripping and loading have succeeded, no find-string of a rule occurs in
  a line of the stripped manifest and writes do not fail, the matcher returns the empty
  match set, validation of it succeeds, the appender returns the file system unchanged,
  and the process makes all five calls and ends with status zero in the file system the
  stripper left.
\<close>

theorem main_empty_match_set:
  assumes "\<not> clean fl"
    and "deleteLinesWithReplace io fsys (goModPath fl) = Inr fs1"
    and "readYamlConfig unmarshal io fs1 (goModConfigPath fl) = Inr finds"
    and "\<forall>line\<in>set (Lines (content fs1 (goModPath fl))). \<forall>cmd\<in>set finds.
           \<not> Contains line (Find cmd)"
    and "writeErr io = None"
  shows "findMatchesInFile io fs1 (goModPath fl) finds = Inr []
       \<and> validateLocalReposExist fs1 [] = None
       \<and> appendModReplace io fs1 (goModPath fl) [] = Inr fs1
       \<and> main unmarshal io fl fsys =
           \<lparr>calls = [Call_deleteLinesWithReplace, Call_readYamlConfig, Call_findMatchesInFile,
                     Call_validateLocalReposExist, Call_appendModReplace],
            ending = Return, final = fs1\<rparr>
       \<and> exitStatus (ending (main unmarshal io fl fsys)) = 0"
proof -
  have e: "concat (map (\<lambda>line. filter (\<lambda>cmd. Contains line (Find cmd)) finds)
             (Lines (content fs1 (goModPath fl)))) = []"
    using assms(4) by (auto simp: filter_empty_conv)
  have f: "findMatchesInFile io fs1 (goModPath fl) finds = Inr []"
    using findMatchesInFile_after_strip[OF assms(2), of finds] e by simp
  have v: "validateLocalReposExist fs1 [] = None"
    by (simp add: validateLocalReposExist_None_iff)
  from assms(2) obtain data where io: "readErr io = None" "createTempErr io = None"
      "closeErr io = None" "renameErr io = None"
    and fs1: "fs1 = fsys((goModPath fl) \<mapsto> File (concat (map (\<lambda>line. line @ [LF])
                (filter (\<lambda>line. \<not> HasPrefix line ''replace'') (Lines data)))))"
    unfolding deleteLinesWithReplace_Inr_iff by blast
  have a: "appendModReplace io fs1 (goModPath fl) [] = Inr fs1"
    unfolding appendModReplace_Inr_iff using io assms(5) fs1 by auto
  have m: "main unmarshal io fl fsys =
           \<lparr>calls = [Call_deleteLinesWithReplace, Call_readYamlConfig, Call_findMatchesInFile,
                     Call_validateLocalReposExist, Call_appendModReplace],
            ending = Return, final = fs1\<rparr>"
    using assms(1-3) f v a by (simp add: main_def)
  show ?thesis using f v a m by simp
qed

theorem main_empty_match_set_witness:
  "deleteLinesWithReplace noFaults
       [''replace.yaml'' \<mapsto> File ''- find: foo/baz\<newline>  replace: ../local/baz\<newline>'',
        ''go.mod'' \<mapsto> File ''require foo/bar v1.0.0\<newline>replace foo/bar => ./old\<newline>'']
       ''go.mod''
     = Inr [''replace.yaml'' \<mapsto> File ''- find: foo/baz\<newline>  replace: ../local/baz\<newline>'',
            ''go.mod'' \<mapsto> File ''require foo/bar v1.0.0\<newline>'']
   \<and> main
         (\<lambda>bytes. if bytes = ''- find: foo/baz\<newline>  replace: ../local/baz\<newline>''
                   then Inr [\<lparr>Find = ''foo/baz'', Replace = ''../local/baz''\<rparr>]
                   else Inl (YamlError ''yaml: not decoded''))
         noFaults
         \<lparr>goModPath = ''go.mod'', goModConfigPath = ''replace.yaml'', clean = False\<rparr>
         [''replace.yaml'' \<mapsto> File ''- find: foo/baz\<newline>  replace: ../local/baz\<newline>'',
          ''go.mod'' \<mapsto> File ''require foo/bar v1.0.0\<newline>replace foo/bar => ./old\<newline>'']
     = \<lparr>calls = [Call_deleteLinesWithReplace, Call_readYamlConfig, Call_findMatchesInFile,
                 Call_validateLocalReposExist, Call_appendModReplace],
        ending = Return,
        final = [''replace.yaml'' \<mapsto> File ''- find: foo/baz\<newline>  replace: ../local/baz\<newline>'',
                 ''go.mod'' \<mapsto> File ''require foo/bar v1.0.0\<newline>'']\<rparr>"
proof -
  let ?fl = "\<lparr>goModPath = ''go.mod'', goModConfigPath = ''replace.yaml'', clean = False\<rparr>"
  let ?fs = "[''replace.yaml'' \<mapsto> File ''- find: foo/baz\<newline>  replace: ../local/baz\<newline>'',
          ''go.mod'' \<mapsto> File ''require foo/bar v1.0.0\<newline>replace foo/bar => ./old\<newline>'']"
  let ?fs1 = "[''replace.yaml'' \<mapsto> File ''- find: foo/baz\<newline>  replace: ../local/baz\<newline>'',
        ''go.mod'' \<mapsto> File ''require foo/bar v1.0.0\<newline>'']"
  let ?r = "\<lparr>Find = ''foo/baz'', Replace = ''../local/baz''\<rparr>"
  let ?dec = "\<lambda>bytes. if bytes = ''- find: foo/baz\<newline>  replace: ../local/baz\<newline>''
                   then Inr [?r]
                   else Inl (YamlError ''yaml: not decoded'')"
  have c: "\<not> clean ?fl" by simp
  have h: "deleteLinesWithReplace noFaults ?fs (goModPath ?fl) = Inr ?fs1"
    by (simp add: run_defs)
  have y: "readYamlConfig ?dec noFaults ?fs1 (goModConfigPath ?fl) = Inr [?r]"
    by (simp add: readYamlConfig_def os_Open_def readAll_def noFaults_def)
  have n: "\<forall>line\<in>set (Lines (content ?fs1 (goModPath ?fl))). \<forall>cmd\<in>set [?r].
             \<not> Contains line (Find cmd)"
    by (simp add: run_defs)
  have w: "writeErr noFaults = None" by (simp add: noFaults_def)
  from main_empty_match_set[OF c h y n w] h show ?thesis by simp
qed

end
